(* ===== verification/Prelude.thy ===== *)
theory Prelude
  imports Main "HOL-Library.Word" "HOL-Library.State_Monad"
begin

section \<open>Shared types, the call trace and the protocol logic\<close>

text \<open>
  What every component of the development uses: names for the C integer types of the
  64-bit Linux targets the sources are built for, the C operations whose result is not
  always defined, the errno values, the effect monad in which the stateful code is
  written, and a small logic about the order of the calls that code makes.

  Integer types. \<open>u8\<close> .. \<open>u64\<close> are the unsigned types, \<open>s32\<close> is \<open>int\<close> and \<open>s64\<close> is
  \<open>long\<close>; a signed value is kept as its bit pattern and read with \<open>sint\<close>. Unsigned
  arithmetic wraps, as in C. A pointer is its address, and NULL is 0.

  Effects. The code calls functions that are not part of the repository (the kernel,
  unvme, netmap, libc). The state of the monad is the list of the calls made so far, oldest
  first, each recorded as an event with its arguments and its result. What a call returns is
  an argument of the model, a function of that history, so it may depend on everything that
  happened before; \<open>ask\<close> makes such a call and records it, \<open>emit\<close> records a call without a
  result. The shape follows the code: a \<^theory_text>\<open>do\<close> block in the order of the
  statements, an early return as the branch of an \<open>if\<close> or a \<open>case\<close>.
\<close>

unbundle bit_operations_syntax

subsection \<open>C integers and pointers\<close>

type_synonym u8 = "8 word"
type_synonym u16 = "16 word"
type_synonym u32 = "32 word"
type_synonym u64 = "64 word"
type_synonym s32 = "32 word"
type_synonym s64 = "64 word"
type_synonym ptr = "64 word"

text \<open>The conversion of an \<open>int\<close> result to \<open>long\<close>: sign extension.\<close>

definition int_to_long :: "s32 \<Rightarrow> s64" where
  "int_to_long x = scast x"

text \<open>
  A shift is undefined in C when the count is negative or not below the width. The count is
  an \<open>int\<close>; the result is None where C leaves it undefined.
\<close>

definition c_shr64 :: "u64 \<Rightarrow> s32 \<Rightarrow> u64 option" where
  "c_shr64 x n = (if 0 \<le> sint n \<and> sint n < 64 then Some (drop_bit (nat (sint n)) x) else None)"

definition c_shl32 :: "u32 \<Rightarrow> s32 \<Rightarrow> u32 option" where
  "c_shl32 x n = (if 0 \<le> sint n \<and> sint n < 32 then Some (push_bit (nat (sint n)) x) else None)"

text \<open>
  Byte order. \<open>be\<close> says whether the machine is big-endian; \<open>cpu_to_le\<close> conversions and their
  inverses swap the bytes on such a machine, \<open>htons\<close> swaps them on the other kind.
\<close>

definition bswap16 :: "u16 \<Rightarrow> u16" where
  "bswap16 x = push_bit 8 x OR drop_bit 8 x"

definition bswap32 :: "u32 \<Rightarrow> u32" where
  "bswap32 x = push_bit 24 x OR push_bit 8 (x AND 0xff00) OR (drop_bit 8 x AND 0xff00) OR
     drop_bit 24 x"

definition bswap64 :: "u64 \<Rightarrow> u64" where
  "bswap64 x = push_bit 32 (ucast (bswap32 (ucast x))) OR ucast (bswap32 (ucast (drop_bit 32 x)))"

definition cpu_to_le16 :: "bool \<Rightarrow> u16 \<Rightarrow> u16" where
  "cpu_to_le16 be x = (if be then bswap16 x else x)"

definition cpu_to_le32 :: "bool \<Rightarrow> u32 \<Rightarrow> u32" where
  "cpu_to_le32 be x = (if be then bswap32 x else x)"

definition cpu_to_le64 :: "bool \<Rightarrow> u64 \<Rightarrow> u64" where
  "cpu_to_le64 be x = (if be then bswap64 x else x)"

definition le16_to_cpu :: "bool \<Rightarrow> u16 \<Rightarrow> u16" where
  "le16_to_cpu be x = (if be then bswap16 x else x)"

lemma cpu_to_le_little [simp]:
  "cpu_to_le16 False x = x" "cpu_to_le32 False y = y" "cpu_to_le64 False z = z"
  "le16_to_cpu False x = x"
  by (simp_all add: cpu_to_le16_def cpu_to_le32_def cpu_to_le64_def le16_to_cpu_def)

text \<open>The errno values the code returns, negated, from \<open>int\<close> functions.\<close>

abbreviation EINTR :: s32 where "EINTR \<equiv> 4"

abbreviation ENOMEM :: s32 where "ENOMEM \<equiv> 12"

abbreviation EBUSY :: s32 where "EBUSY \<equiv> 16"

abbreviation ENODEV :: s32 where "ENODEV \<equiv> 19"

abbreviation EINVAL :: s32 where "EINVAL \<equiv> 22"

abbreviation ENOTTY :: s32 where "ENOTTY \<equiv> 25"

text \<open>
  Where the C code goes wrong in a way no return value shows: a NULL pointer that is
  dereferenced, an undefined shift, an access outside an object, an overflow of a signed addition, a
  variable that is read before it is set, a division by zero.
\<close>

datatype fault = NullDeref | BadShift | OutOfBounds | IntOverflow | Uninitialised | DivByZero

subsection \<open>Signed readings of words\<close>

lemma sint_diff_s32:
  fixes a b :: s32
  assumes "- (2 ^ 31) \<le> sint a - sint b" "sint a - sint b < 2 ^ 31"
  shows "sint (a - b) = sint a - sint b"
  using assms by (simp add: sint_word_ariths signed_take_bit_int_eq_self)

lemma sint_s32_range: "- (2 ^ 31) \<le> sint (x :: s32)" "sint (x :: s32) < 2 ^ 31"
  using sint_range_size [of x] by (simp_all add: word_size)

lemma sint_minus_9:
  "sint ((s :: s32) - 9) = (if sint s < - (2 ^ 31) + 9 then sint s - 9 + 2 ^ 32 else sint s - 9)"
proof (cases "sint s < - (2 ^ 31) + 9")
  case True
  have shift: "take_bit 32 (x + 2 ^ 32) = take_bit 32 x" for x :: int
    by (simp add: take_bit_eq_mod)
  have "sint (s - 9) = signed_take_bit 31 (sint s - 9)"
    by (simp add: sint_word_ariths)
  also have "\<dots> = signed_take_bit 31 (sint s - 9 + 2 ^ 32)"
    using shift [of "sint s - 9 + 2 ^ 31"]
    by (simp add: signed_take_bit_eq_take_bit_shift)
  also have "\<dots> = sint s - 9 + 2 ^ 32"
    using True sint_s32_range [of s] by (simp add: signed_take_bit_int_eq_self)
  finally show ?thesis using True by simp
next
  case False
  then show ?thesis
    using sint_s32_range [of s] by (simp add: sint_diff_s32)
qed

lemma unat_drop_bit_div: "unat (drop_bit n w) = unat w div 2 ^ n"
  unfolding unat_drop_bit_eq by (simp add: drop_bit_eq_div)

lemma unat_plus_one:
  fixes n m :: "'a::len word"
  assumes "n < m"
  shows "unat (n + 1) = unat n + 1"
proof -
  have "unat m < 2 ^ LENGTH('a)" by (rule unsigned_less)
  with assms have "unat n + 1 < 2 ^ LENGTH('a)" unfolding word_less_nat_alt by linarith
  then show ?thesis by (simp add: unat_word_ariths)
qed

lemma unat_minus_1:
  fixes w :: "'a::len word"
  assumes "0 < unat w"
  shows "unat (w - 1) = unat w - 1"
proof -
  have "1 \<le> w" using assms by (simp add: word_le_nat_alt)
  then have "unat (w - 1) = unat w - unat (1 :: 'a word)" by (rule unat_sub)
  then show ?thesis by simp
qed

lemma sint_of_small: "unat (w :: u64) < 2 ^ 63 \<Longrightarrow> 0 \<le> sint w"
proof -
  assume "unat w < 2 ^ 63"
  then have "nat (uint w) < nat (2 ^ 63)" unfolding nat_uint_eq by simp
  then have u: "uint w < 2 ^ 63" by linarith
  have "sint w = uint w"
    unfolding sint_uint
    by (rule signed_take_bit_int_eq_self, rule order_trans [OF _ uint_ge_0], simp) (use u in simp)
  then show "0 \<le> sint w" by simp
qed

lemma s32_nonneg:
  assumes "0 \<le> sint (w :: s32)"
  shows "int (unat w) = sint w" "uint (scast w :: u64) = sint w"
proof -
  have up: "sint w < 2 ^ 31" by (rule sint_s32_range)
  have "uint w = take_bit 32 (sint w)" by (simp add: uint_sint)
  also have "\<dots> = sint w" using assms up by (simp add: take_bit_int_eq_self)
  finally show "int (unat w) = sint w" by (simp only: uint_nat)
  have "(scast w :: u64) = word_of_int (sint w)" by simp
  then show "uint (scast w :: u64) = sint w"
    using assms up by (simp only: unsigned_of_int) (simp add: take_bit_int_eq_self)
qed

lemma unat_ucast_32_64 [simp]: "unat (ucast (x :: u32) :: u64) = unat x"
proof -
  have "unat x < 2 ^ LENGTH(32)" by (rule unsigned_less)
  then show ?thesis by (simp add: unsigned_ucast_eq take_bit_nat_eq_self)
qed

lemma unat_small_add:
  fixes a b :: u64
  assumes "unat a + unat b < 2 ^ 64"
  shows "unat (a + b) = unat a + unat b"
  using assms by (simp add: unat_word_ariths)

lemma ucast_add_64_32: "(ucast (a + b :: u64) :: u32) = ucast a + ucast b"
proof -
  have m: "x mod 18446744073709551616 mod 4294967296 = x mod 4294967296" for x :: int
    by (rule mod_mod_cancel) simp
  have "(x + y) mod 4294967296 =
      (x mod 18446744073709551616 + y mod 18446744073709551616) mod 4294967296" for x y :: int
    by (metis m mod_add_eq)
  then show ?thesis
    by transfer (simp add: take_bit_eq_mod m)
qed

subsection \<open>The effect monad over the call trace\<close>

type_synonym ('e, 'a) io = "('e list, 'a) state"

definition emit :: "'e \<Rightarrow> ('e, unit) io" where
  "emit e = State (\<lambda>h. ((), h @ [e]))"

definition ask :: "('e list \<Rightarrow> 'r) \<Rightarrow> ('r \<Rightarrow> 'e) \<Rightarrow> ('e, 'r) io" where
  "ask oracle event = State (\<lambda>h. (oracle h, h @ [event (oracle h)]))"

named_theorems io_run \<open>results and traces of effectful code\<close>

lemma run_emit [io_run, simp]: "run_state (emit e) h = ((), h @ [e])"
  by (simp add: emit_def)

lemma run_ask [io_run, simp]: "run_state (ask q e) h = (q h, h @ [e (q h)])"
  by (simp add: ask_def)

subsection \<open>Protocols: an automaton over the calls of a program\<close>

text \<open>
  A protocol is a deterministic automaton over events; a step that is not allowed is None.
  \<open>obeys d p m Q\<close> says that, whatever the environment answers, the events \<open>m\<close> appends take
  the automaton from \<open>p\<close> to some state \<open>q\<close> with \<open>Q r q\<close> for the result \<open>r\<close> of \<open>m\<close>. The
  rules below reduce a program to its calls, so a component's proof is a case split over the
  answers.
\<close>

fun proto_run :: "('p \<Rightarrow> 'e \<Rightarrow> 'p option) \<Rightarrow> 'p \<Rightarrow> 'e list \<Rightarrow> 'p option" where
  "proto_run d p [] = Some p"
| "proto_run d p (e # es) = (case d p e of None \<Rightarrow> None | Some q \<Rightarrow> proto_run d q es)"

lemma proto_run_append:
  "proto_run d p (xs @ ys) = (case proto_run d p xs of None \<Rightarrow> None | Some q \<Rightarrow> proto_run d q ys)"
  by (induction xs arbitrary: p) (auto split: option.splits)

definition obeys ::
  "('p \<Rightarrow> 'e \<Rightarrow> 'p option) \<Rightarrow> 'p \<Rightarrow> ('e, 'a) io \<Rightarrow> ('a \<Rightarrow> 'p \<Rightarrow> bool) \<Rightarrow> bool" where
  "obeys d p m Q \<longleftrightarrow> (\<forall>h. \<exists>evs q. snd (run_state m h) = h @ evs \<and>
     proto_run d p evs = Some q \<and> Q (fst (run_state m h)) q)"

named_theorems obeys_simps \<open>the protocol logic, by the shape of the program\<close>

lemma obeys_return [obeys_simps]: "obeys d p (State_Monad.return x) Q \<longleftrightarrow> Q x p"
  by (simp add: obeys_def)

lemma obeys_emit [obeys_simps]:
  "obeys d p (emit e) Q \<longleftrightarrow> (\<exists>q. d p e = Some q \<and> Q () q)"
  by (auto simp: obeys_def split: option.splits)

lemma obeys_ask [obeys_simps]:
  "obeys d p (ask f e) Q \<longleftrightarrow> (\<forall>h. \<exists>q. d p (e (f h)) = Some q \<and> Q (f h) q)"
  by (auto simp: obeys_def split: option.splits) (metis option.inject)

lemma obeys_bind:
  assumes "obeys d p m (\<lambda>x q. obeys d q (f x) Q)"
  shows "obeys d p (State_Monad.bind m f) Q"
  unfolding obeys_def
proof
  fix h
  from assms obtain evs q where 1: "snd (run_state m h) = h @ evs" "proto_run d p evs = Some q"
    "obeys d q (f (fst (run_state m h))) Q"
    unfolding obeys_def by blast
  then obtain evs' r where
    "snd (run_state (f (fst (run_state m h))) (h @ evs)) = (h @ evs) @ evs'"
    "proto_run d q evs' = Some r" "Q (fst (run_state (f (fst (run_state m h))) (h @ evs))) r"
    unfolding obeys_def by blast
  with 1 show "\<exists>evs q. snd (run_state (State_Monad.bind m f) h) = h @ evs \<and>
      proto_run d p evs = Some q \<and> Q (fst (run_state (State_Monad.bind m f) h)) q"
    by (intro exI [of _ "evs @ evs'"] exI [of _ r]) (auto simp: proto_run_append split_beta)
qed

lemma obeys_mono:
  assumes "obeys d p m R" and "\<And>x q. R x q \<Longrightarrow> Q x q"
  shows "obeys d p m Q"
  using assms unfolding obeys_def by metis

lemma obeys_bindI:
  assumes "obeys d p m R" and "\<And>x q. R x q \<Longrightarrow> obeys d q (f x) Q"
  shows "obeys d p (State_Monad.bind m f) Q"
  by (rule obeys_bind, rule obeys_mono [OF assms(1)]) (rule assms(2))

text \<open>What a conforming program leaves behind, read off its run.\<close>

lemma obeysD:
  assumes "obeys d p m Q" and "run_state m h = (r, h')"
  obtains evs q where "h' = h @ evs" "proto_run d p evs = Some q" "Q r q"
proof -
  from assms(1) obtain evs q where "snd (run_state m h) = h @ evs" "proto_run d p evs = Some q"
    "Q (fst (run_state m h)) q"
    unfolding obeys_def by blast
  with assms(2) show thesis by (auto intro: that)
qed

lemma obeys_run:
  assumes "obeys d p m Q" and "run_state m h = (r, h @ evs)"
  shows "\<exists>q. proto_run d p evs = Some q \<and> Q r q"
  using obeysD [OF assms] by (metis same_append_eq)

lemma obeys_ends:
  assumes "obeys d p m Q" and "run_state m h = (r, h')"
  shows "\<exists>q. Q r q"
proof -
  obtain evs q where "h' = h @ evs" "proto_run d p evs = Some q" "Q r q"
    using assms by (rule obeysD)
  then show ?thesis by blast
qed

text \<open>A fact about every result of a program can be added to its postcondition.\<close>

lemma obeys_result:
  assumes "obeys d p m Q" and "\<And>h r h'. run_state m h = (r, h') \<Longrightarrow> R r"
  shows "obeys d p m (\<lambda>r q. Q r q \<and> R r)"
  using assms unfolding obeys_def by (metis prod.collapse)

text \<open>
  Two automata that accept every trace up to a property: \<open>watch P\<close> rejects an event without
  \<open>P\<close>, \<open>collect f\<close> gathers a projection of the trace.
\<close>

definition watch :: "('e \<Rightarrow> bool) \<Rightarrow> unit \<Rightarrow> 'e \<Rightarrow> unit option" where
  "watch P u e = (if P e then Some () else None)"

lemma proto_run_watch: "proto_run (watch P) u evs = Some v \<longleftrightarrow> (\<forall>e \<in> set evs. P e)"
  by (induction evs arbitrary: u) (auto simp: watch_def)

definition collect :: "('e \<Rightarrow> 'x list) \<Rightarrow> 'x list \<Rightarrow> 'e \<Rightarrow> 'x list option" where
  "collect f xs e = Some (xs @ f e)"

lemma proto_run_collect: "proto_run (collect f) xs evs = Some (xs @ concat (map f evs))"
  by (induction evs arbitrary: xs) (auto simp: collect_def)

lemma obeys_watchD:
  assumes "obeys (watch P) () m Q" and "run_state m h = (r, h @ evs)"
  shows "(\<forall>e \<in> set evs. P e) \<and> Q r ()"
  using obeysD [OF assms] by (metis proto_run_watch same_append_eq old.unit.exhaust)

lemma obeys_collectD:
  assumes "obeys (collect f) [] m Q" and "run_state m h = (r, h @ evs)"
  shows "Q r (concat (map f evs))"
  using obeysD [OF assms] by (metis proto_run_collect same_append_eq append_Nil option.inject)

text \<open>The whole trace, for the last events of a run.\<close>

definition whole_trace :: "'e list \<Rightarrow> 'e \<Rightarrow> 'e list option" where
  "whole_trace = collect (\<lambda>e. [e])"

lemma whole_trace_step: "whole_trace xs e = Some (xs @ [e])"
  by (simp add: whole_trace_def collect_def)

lemma whole_trace_any:
  "obeys whole_trace xs m (\<lambda>_ _. True)" if "obeys d p m Q"
  using that unfolding obeys_def whole_trace_def by (metis proto_run_collect)

text \<open>The trace only ever grows.\<close>

lemma obeys_extends:
  assumes "obeys d p m Q" and "run_state m h = (r, h')"
  shows "\<exists>evs. h' = h @ evs"
  using obeysD [OF assms] by blast

subsection \<open>Results of programs\<close>

text \<open>\<open>yields m Q\<close>: whatever the environment answers, the result of \<open>m\<close> satisfies \<open>Q\<close>.\<close>

definition yields :: "('e, 'a) io \<Rightarrow> ('a \<Rightarrow> bool) \<Rightarrow> bool" where
  "yields m Q \<longleftrightarrow> (\<forall>h. Q (fst (run_state m h)))"

named_theorems yields_simps \<open>results, by the shape of the program\<close>

lemma yields_return [yields_simps]: "yields (State_Monad.return x) Q \<longleftrightarrow> Q x"
  by (simp add: yields_def)

lemma yields_emit [yields_simps]: "yields (emit e) Q \<longleftrightarrow> Q ()"
  by (simp add: yields_def)

lemma yields_ask [yields_simps]: "yields (ask f e) Q \<longleftrightarrow> (\<forall>h. Q (f h))"
  by (simp add: yields_def)

lemma yields_bind: "yields m (\<lambda>x. yields (f x) Q) \<Longrightarrow> yields (State_Monad.bind m f) Q"
  by (simp add: yields_def split_beta)

lemma yields_conj: "yields m Q \<Longrightarrow> yields m R \<Longrightarrow> yields m (\<lambda>x. Q x \<and> R x)"
  by (simp add: yields_def)

lemma yields_any [simp]: "yields m (\<lambda>x. True)"
  by (simp add: yields_def)

lemma yields_mono: "yields m R \<Longrightarrow> (\<And>x. R x \<Longrightarrow> Q x) \<Longrightarrow> yields m Q"
  by (auto simp: yields_def)

lemma yields_bindI: "yields m R \<Longrightarrow> (\<And>x. R x \<Longrightarrow> yields (f x) Q) \<Longrightarrow> yields (State_Monad.bind m f) Q"
  by (auto simp: yields_def split_beta)

lemma yields_obeys: "obeys d p m (\<lambda>x q. Q x) \<Longrightarrow> yields m Q"
  unfolding obeys_def yields_def by blast

end
