(* ===== verification/C_Library.thy ===== *)
theory C_Library
  imports Prelude
begin

section \<open>The C library functions the tools use\<close>

text \<open>
  Decimal output (\<open>%d\<close>), \<open>strtol\<close> and \<open>atoi\<close>, \<open>strncmp\<close> compared with 0, and \<open>getopt\<close>, as
  far as the sources use them. Strings are C strings without their final NUL. \<open>getopt\<close> is the
  GNU one: options may be clustered, an argument may be attached to its option, arguments that
  are not options are skipped, \<open>--\<close> ends the options, and an unknown option or a missing
  argument is reported as \<open>?\<close>; the model is the list of the pairs of return value and optarg.
\<close>

subsection \<open>Decimal numbers\<close>

definition digit_char :: "nat \<Rightarrow> char" where
  "digit_char d = char_of (48 + d)"

fun show_nat :: "nat \<Rightarrow> string" where
  "show_nat n = (if n < 10 then [digit_char n] else show_nat (n div 10) @ [digit_char (n mod 10)])"

declare show_nat.simps [simp del]

definition show_int :: "int \<Rightarrow> string" where
  "show_int i = (if i < 0 then CHR ''-'' # show_nat (nat (- i)) else show_nat (nat i))"

definition digit_val :: "char \<Rightarrow> nat option" where
  "digit_val c = (let n = of_char c :: nat in
     if 48 \<le> n \<and> n \<le> 57 then Some (n - 48)
     else if 97 \<le> n \<and> n \<le> 122 then Some (n - 87)
     else if 65 \<le> n \<and> n \<le> 90 then Some (n - 55)
     else None)"

fun take_digits :: "nat \<Rightarrow> string \<Rightarrow> nat \<Rightarrow> nat" where
  "take_digits b [] acc = acc"
| "take_digits b (c # cs) acc =
     (case digit_val c of None \<Rightarrow> acc
      | Some d \<Rightarrow> if d < b then take_digits b cs (acc * b + d) else acc)"

definition is_space :: "char \<Rightarrow> bool" where
  "is_space c \<longleftrightarrow> c = CHR '' '' \<or> (9 \<le> (of_char c :: nat) \<and> (of_char c :: nat) \<le> 13)"

fun strtol_sign :: "string \<Rightarrow> bool \<times> string" where
  "strtol_sign [] = (False, [])"
| "strtol_sign (c # cs) =
     (if c = CHR ''-'' then (True, cs) else if c = CHR ''+'' then (False, cs) else (False, c # cs))"

text \<open>Base 0 takes the base from the prefix: \<open>0x\<close> and a hexadecimal digit, or \<open>0\<close>.\<close>

definition strtol_base :: "nat \<Rightarrow> string \<Rightarrow> nat \<times> string" where
  "strtol_base base s =
     (if base = 0 \<or> base = 16 then
        (case s of
           z # x # d # rest \<Rightarrow>
             (if z = CHR ''0'' \<and> (x = CHR ''x'' \<or> x = CHR ''X'') \<and>
                 (case digit_val d of None \<Rightarrow> False | Some v \<Rightarrow> v < 16)
              then (16, d # rest)
              else if base = 16 then (16, s) else if z = CHR ''0'' then (8, s) else (10, s))
         | z # rest \<Rightarrow> if base = 16 then (16, s) else if z = CHR ''0'' then (8, s) else (10, s)
         | [] \<Rightarrow> (10, s))
      else (base, s))"

definition clamp_long :: "int \<Rightarrow> int" where
  "clamp_long v = max (- (2 ^ 63)) (min (2 ^ 63 - 1) v)"

definition strtol :: "string \<Rightarrow> nat \<Rightarrow> int" where
  "strtol s base =
     (let (neg, s1) = strtol_sign (dropWhile is_space s);
          (b, s2) = strtol_base base s1;
          v = int (take_digits b s2 0)
      in clamp_long (if neg then - v else v))"

text \<open>\<open>atoi\<close> is \<open>strtol\<close> in base 10 converted to \<open>int\<close>.\<close>

definition atoi :: "string \<Rightarrow> s32" where
  "atoi s = word_of_int (strtol s 10)"

subsection \<open>Comparing prefixes\<close>

definition strncmp_eq :: "string \<Rightarrow> string \<Rightarrow> nat \<Rightarrow> bool" where
  "strncmp_eq a b n \<longleftrightarrow> take n a = take n b"

subsection \<open>getopt\<close>

text \<open>None: not an option of the string; \<open>Some True\<close>: an option with an argument.\<close>

fun opt_lookup :: "string \<Rightarrow> char \<Rightarrow> bool option" where
  "opt_lookup [] c = None"
| "opt_lookup [o1] c = (if o1 = c \<and> c \<noteq> CHR '':'' then Some False else None)"
| "opt_lookup (o1 # o2 # os) c =
     (if o1 = c \<and> c \<noteq> CHR '':'' then Some (o2 = CHR '':'') else opt_lookup (o2 # os) c)"

function (sequential) getopt_args :: "string \<Rightarrow> string list \<Rightarrow> (char \<times> string) list"
  and getopt_cluster :: "string \<Rightarrow> string \<Rightarrow> string list \<Rightarrow> (char \<times> string) list" where
  "getopt_args opts [] = []"
| "getopt_args opts (a # as) =
     (if a = ''--'' then []
      else if take 1 a = ''-'' \<and> a \<noteq> ''-'' then getopt_cluster opts (drop 1 a) as
      else getopt_args opts as)"
| "getopt_cluster opts [] as = getopt_args opts as"
| "getopt_cluster opts (c # cs) as =
     (case opt_lookup opts c of
        None \<Rightarrow> (CHR ''?'', []) # getopt_cluster opts cs as
      | Some False \<Rightarrow> (c, []) # getopt_cluster opts cs as
      | Some True \<Rightarrow>
          (if cs \<noteq> [] then (c, cs) # getopt_args opts as
           else (case as of [] \<Rightarrow> [(CHR ''?'', [])] | a # as' \<Rightarrow> (c, a) # getopt_args opts as')))"
  by pat_completeness auto
termination
  by (relation "measure (\<lambda>x. case x of
        Inl (_, as) \<Rightarrow> 2 * (length as + sum_list (map length as))
      | Inr (_, cs, as) \<Rightarrow> 1 + 2 * length cs + 2 * (length as + sum_list (map length as)))")
    (auto simp: take_Suc split: list.splits)

subsection \<open>Decimal output and input are inverse\<close>

lemma digit_val_digit_char [simp]: "d < 10 \<Longrightarrow> digit_val (digit_char d) = Some d"
  by (simp add: digit_val_def digit_char_def Let_def)

lemma digit_char_inj: "a < 10 \<Longrightarrow> b < 10 \<Longrightarrow> digit_char a = digit_char b \<Longrightarrow> a = b"
  by (metis digit_val_digit_char option.inject)

lemma take_digits_append:
  assumes "\<forall>c \<in> set xs. \<exists>d < b. digit_val c = Some d"
  shows "take_digits b (xs @ ys) acc = take_digits b ys (take_digits b xs acc)"
  using assms by (induction xs arbitrary: acc) auto

lemma show_nat_digits: "\<forall>c \<in> set (show_nat n). \<exists>d < 10. c = digit_char d"
proof (induction n rule: show_nat.induct)
  case (1 n)
  have "\<exists>d < 10. digit_char (n mod 10) = digit_char d"
    by (rule exI [of _ "n mod 10"]) simp
  with 1 show ?case by (cases "n < 10") (auto simp: show_nat.simps [of n])
qed

lemma show_nat_digit_val: "\<forall>c \<in> set (show_nat n). \<exists>d < 10. digit_val c = Some d"
  using show_nat_digits by fastforce

lemma show_nat_nonempty [simp]: "show_nat n \<noteq> []"
  by (subst show_nat.simps) simp

lemma take_digits_show_nat: "take_digits 10 (show_nat n) 0 = n"
proof (induction n rule: show_nat.induct)
  case (1 n)
  show ?case
  proof (cases "n < 10")
    case True
    then show ?thesis by (simp add: show_nat.simps [of n])
  next
    case False
    with "1.IH" have "take_digits 10 (show_nat (n div 10)) 0 = n div 10" by simp
    with False show ?thesis
      by (simp add: show_nat.simps [of n] take_digits_append show_nat_digit_val)
  qed
qed

lemma show_nat_inj: "show_nat a = show_nat b \<longleftrightarrow> a = b"
  by (metis take_digits_show_nat)


lemma show_nat_no_n: "CHR ''n'' \<notin> set (show_nat k)"
proof
  assume "CHR ''n'' \<in> set (show_nat k)"
  then obtain d where "d < 10" "digit_val CHR ''n'' = Some d"
    using show_nat_digit_val by blast
  then show False by (simp add: digit_val_def)
qed

lemma show_nat_no_minus: "CHR ''-'' \<notin> set (show_nat k)"
proof
  assume "CHR ''-'' \<in> set (show_nat k)"
  then obtain d where "d < 10" "digit_val CHR ''-'' = Some d"
    using show_nat_digit_val by blast
  then show False by (simp add: digit_val_def)
qed

lemma not_n_in_show_int: "CHR ''n'' \<notin> set (show_int i)"
  by (simp add: show_int_def show_nat_no_n)

lemma show_int_inj: "show_int i = show_int j \<longleftrightarrow> i = j"
proof
  assume eq: "show_int i = show_int j"
  have "CHR ''-'' \<in> set (show_int k) \<longleftrightarrow> k < 0" for k
    by (simp add: show_int_def show_nat_no_minus)
  with eq have "i < 0 \<longleftrightarrow> j < 0" by metis
  with eq show "i = j"
    by (auto simp: show_int_def show_nat_inj split: if_splits)
qed simp

lemma split_at_first:
  assumes "c \<notin> set xs" "c \<notin> set us" "xs @ c # ys = us @ c # vs"
  shows "xs = us \<and> ys = vs"
  using assms
proof (induction xs arbitrary: us)
  case Nil
  then show ?case by (cases us) auto
next
  case (Cons x xs)
  then show ?case by (cases us) auto
qed

subsection \<open>What getopt returns\<close>

lemma getopt_chars:
  "\<forall>(c, a) \<in> set (getopt_args opts argv). c = CHR ''?'' \<or> opt_lookup opts c \<noteq> None"
  "\<forall>(c, a) \<in> set (getopt_cluster opts cs argv). c = CHR ''?'' \<or> opt_lookup opts c \<noteq> None"
proof (induction opts argv and opts cs argv rule: getopt_args_getopt_cluster.induct)
  case (4 opts c cs as)
  then show ?case by (auto split: option.splits bool.splits list.splits)
qed auto

end
