(* ===== verification/Nvme.thy ===== *)
theory Nvme
  imports C_Library
begin

section \<open>The NVMe driver's header\<close>

text \<open>
  native-driver/nvme.h: the enumerations and structures of the NVMe host driver as far as they
  hold data (embedded kernel objects such as locks, list heads, work items and devices are left
  out, pointers are addresses), and its inline functions. \<open>nvme_config\<close> holds the kernel options
  the header tests. The register interface of a controller is a record of functions, as in
  \<open>struct nvme_ctrl_ops\<close>; the kernel helpers the inline functions call are recorded as events.
\<close>

subsection \<open>Enumerations and flags\<close>

text \<open>
  The timeouts are kept in seconds in variables of the driver (\<open>nvme_io_timeout\<close>, \<open>admin_timeout\<close>) and used in
  ticks; \<open>HZ\<close> is the number of ticks in a second. \<open>REQ_DRV\<close> is a flag of the block layer.
\<close>

definition NVME_IO_TIMEOUT :: "u32 \<Rightarrow> u32 \<Rightarrow> u32" where
  "NVME_IO_TIMEOUT nvme_io_timeout HZ = nvme_io_timeout * HZ"

definition ADMIN_TIMEOUT :: "u32 \<Rightarrow> u32 \<Rightarrow> u32" where
  "ADMIN_TIMEOUT admin_timeout HZ = admin_timeout * HZ"

definition NVME_DEFAULT_KATO :: u32 where
  "NVME_DEFAULT_KATO = 5"

definition NVME_KATO_GRACE :: u32 where
  "NVME_KATO_GRACE = 10"

definition NVME_NS_LBA :: s32 where
  "NVME_NS_LBA = 0"

definition NVME_NS_LIGHTNVM :: s32 where
  "NVME_NS_LIGHTNVM = 1"

definition REQ_NVME_MPATH :: "u32 \<Rightarrow> u32" where
  "REQ_NVME_MPATH REQ_DRV = REQ_DRV"

definition NVME_QUIRK_DELAY_AMOUNT :: s32 where
  "NVME_QUIRK_DELAY_AMOUNT = 2300"

datatype nvme_quirks =
    NVME_QUIRK_STRIPE_SIZE | NVME_QUIRK_IDENTIFY_CNS | NVME_QUIRK_DEALLOCATE_ZEROES
  | NVME_QUIRK_DELAY_BEFORE_CHK_RDY | NVME_QUIRK_NO_APST | NVME_QUIRK_NO_DEEPEST_PS
  | NVME_QUIRK_LIGHTNVM | NVME_QUIRK_MEDIUM_PRIO_SQ

primrec nvme_quirk_value :: "nvme_quirks \<Rightarrow> u64" where
  "nvme_quirk_value NVME_QUIRK_STRIPE_SIZE = push_bit 0 1"
| "nvme_quirk_value NVME_QUIRK_IDENTIFY_CNS = push_bit 1 1"
| "nvme_quirk_value NVME_QUIRK_DEALLOCATE_ZEROES = push_bit 2 1"
| "nvme_quirk_value NVME_QUIRK_DELAY_BEFORE_CHK_RDY = push_bit 3 1"
| "nvme_quirk_value NVME_QUIRK_NO_APST = push_bit 4 1"
| "nvme_quirk_value NVME_QUIRK_NO_DEEPEST_PS = push_bit 5 1"
| "nvme_quirk_value NVME_QUIRK_LIGHTNVM = push_bit 6 1"
| "nvme_quirk_value NVME_QUIRK_MEDIUM_PRIO_SQ = push_bit 7 1"

text \<open>The flags of \<open>struct nvme_request\<close>.\<close>

definition NVME_REQ_CANCELLED :: u8 where
  "NVME_REQ_CANCELLED = push_bit 0 1"

definition NVME_REQ_USERCMD :: u8 where
  "NVME_REQ_USERCMD = push_bit 1 1"

datatype nvme_ctrl_state =
    NVME_CTRL_NEW | NVME_CTRL_LIVE | NVME_CTRL_ADMIN_ONLY | NVME_CTRL_RESETTING
  | NVME_CTRL_CONNECTING | NVME_CTRL_DELETING | NVME_CTRL_DEAD

text \<open>The bit numbers of the flags of \<open>struct nvme_ns\<close>, the flags of \<open>struct nvme_ctrl_ops\<close>, and any queue.\<close>

definition NVME_NS_REMOVING :: nat where
  "NVME_NS_REMOVING = 0"

definition NVME_NS_DEAD :: nat where
  "NVME_NS_DEAD = 1"

definition NVME_NS_ANA_PENDING :: nat where
  "NVME_NS_ANA_PENDING = 2"

definition NVME_F_FABRICS :: u32 where
  "NVME_F_FABRICS = push_bit 0 1"

definition NVME_F_METADATA_SUPPORTED :: u32 where
  "NVME_F_METADATA_SUPPORTED = push_bit 1 1"

definition NVME_F_PCI_P2PDMA :: u32 where
  "NVME_F_PCI_P2PDMA = push_bit 2 1"

definition NVME_QID_ANY :: s32 where
  "NVME_QID_ANY = - 1"

text \<open>Register offsets and the ready bit, as the NVMe specification defines them.\<close>

abbreviation NVME_REG_CSTS :: u32 where "NVME_REG_CSTS \<equiv> 0x1c"

abbreviation NVME_REG_NSSR :: u32 where "NVME_REG_NSSR \<equiv> 0x20"

abbreviation NVME_CSTS_RDY :: u32 where "NVME_CSTS_RDY \<equiv> 1"

subsection \<open>Events, configuration and structures\<close>

datatype nvme_event =
    RegRead32 ptr u32 s32 u32 \<comment> \<open>controller, offset, return value, register value\<close>
  | RegWrite32 ptr u32 u32 s32 \<comment> \<open>controller, offset, value, return value\<close>
  | GetDevice ptr
  | PutDevice ptr
  | ShouldFail ptr
  | CompleteRequest ptr
  | KblockdSchedule ptr
  | DevWarn ptr string

record nvme_config =
  cfg_big_endian :: bool
  cfg_multipath :: bool \<comment> \<open>CONFIG_NVME_MULTIPATH\<close>
  cfg_fault_injection :: bool \<comment> \<open>CONFIG_FAULT_INJECTION_DEBUG_FS\<close>

record nvme_request =
  nr_cmd :: ptr
  nr_result :: u64
  nr_retries :: u8
  nr_flags :: u8
  nr_status :: u16
  nr_ctrl :: ptr

text \<open>
  The operations of a controller. The ones the header's functions call are functions of the history,
  the others are the addresses in the table.
\<close>

record nvme_ctrl_ops =
  ops_name :: string
  ops_module :: ptr
  ops_flags :: u32
  reg_read32 :: "nvme_event list \<Rightarrow> ptr \<Rightarrow> u32 \<Rightarrow> s32 \<times> u32"
  reg_write32 :: "nvme_event list \<Rightarrow> ptr \<Rightarrow> u32 \<Rightarrow> u32 \<Rightarrow> s32"
  reg_read64 :: ptr
  free_ctrl :: ptr
  submit_async_event :: ptr
  delete_ctrl :: ptr
  get_address :: ptr
  stop_ctrl :: ptr

record nvme_subsystem =
  subsys_instance :: s32
  subsys_ctrls :: "ptr list"
  subsys_nsheads :: "ptr list"
  subsys_subnqn :: string
  subsys_serial :: string
  subsys_model :: string
  subsys_firmware_rev :: string
  subsys_cmic :: u8
  subsys_vendor_id :: u16

text \<open>
  What a controller keeps only with multipath support, and what only PCIe and fabrics controllers
  use, are groups of their own.
\<close>

record nvme_ctrl_ana =
  ana_cap :: u8
  ana_tt :: u8
  ana_grpmax :: u32
  ana_nanagrpid :: u32
  ana_log_buf :: ptr
  ana_log_size :: u64

record nvme_ctrl_transport =
  tr_hmpre :: u32
  tr_hmmin :: u32
  tr_hmminds :: u32
  tr_hmmaxd :: u16
  tr_sqsize :: u16
  tr_ioccsz :: u32
  tr_iorcsz :: u32
  tr_icdoff :: u16
  tr_maxcmd :: u16
  tr_nr_reconnects :: s32
  tr_opts :: ptr

record nvme_ctrl_limits =
  lim_ctrl_config :: u32
  lim_mtfa :: u16
  lim_queue_count :: u32
  lim_cap :: u64
  lim_page_size :: u32
  lim_max_hw_sectors :: u32
  lim_max_segments :: u32
  lim_oncs :: u16
  lim_oacs :: u16
  lim_nssa :: u16
  lim_nr_streams :: u16
  lim_max_namespaces :: u32
  lim_abort_limit :: s32
  lim_vwc :: u8
  lim_vs :: u32
  lim_sgls :: u32
  lim_kas :: u16
  lim_npss :: u8
  lim_apsta :: u8
  lim_oaes :: u32
  lim_aen_result :: u32
  lim_shutdown_timeout :: u32
  lim_kato :: u32

record nvme_ctrl =
  ctrl_self :: ptr \<comment> \<open>the address of the structure\<close>
  ctrl_state :: nvme_ctrl_state
  ctrl_identified :: bool
  ctrl_ops :: nvme_ctrl_ops
  ctrl_admin_q :: ptr
  ctrl_connect_q :: ptr
  ctrl_dev :: ptr
  ctrl_instance :: s32
  ctrl_tagset :: ptr
  ctrl_admin_tagset :: ptr
  ctrl_namespaces :: "ptr list"
  ctrl_device :: ptr \<comment> \<open>\<open>device\<close>, the character device\<close>
  ctrl_subsys :: nvme_subsystem
  ctrl_opal_dev :: ptr
  ctrl_name :: string
  ctrl_cntlid :: u16
  ctrl_limits :: nvme_ctrl_limits
  ctrl_subsystem :: bool
  ctrl_quirks :: u64
  ctrl_effects :: ptr
  ctrl_events :: u64
  ctrl_ana :: nvme_ctrl_ana \<comment> \<open>multipath only\<close>
  ctrl_ps_max_latency_us :: u64
  ctrl_apst_enabled :: bool
  ctrl_transport :: nvme_ctrl_transport

record nvme_ns_ids =
  ids_eui64 :: "u8 list"
  ids_nguid :: "u8 list"
  ids_uuid :: "u8 list"

record nvme_ns_head =
  head_list :: "ptr list" \<comment> \<open>the namespaces chained on \<open>list\<close>\<close>
  head_subsys :: ptr
  head_ns_id :: u32
  head_ids :: nvme_ns_ids
  head_instance :: s32
  head_disk :: ptr \<comment> \<open>multipath only\<close>
  head_requeue_list :: "ptr list" \<comment> \<open>multipath only\<close>
  head_requeue_work :: ptr \<comment> \<open>the address of the work item, multipath only\<close>
  head_current_path :: "ptr list" \<comment> \<open>multipath only\<close>

record nvme_fault_inject =
  fi_parent :: ptr
  fi_dont_retry :: bool
  fi_status :: u16

record nvme_ns =
  ns_ctrl :: ptr
  ns_queue :: ptr
  ns_disk :: ptr
  ns_ana_state :: u32 \<comment> \<open>multipath only\<close>
  ns_ana_grpid :: u32 \<comment> \<open>multipath only\<close>
  ns_ndev :: ptr
  ns_head :: nvme_ns_head
  ns_lba_shift :: s32
  ns_ms :: u16
  ns_sgs :: u16
  ns_sws :: u32
  ns_ext :: bool
  ns_pi_type :: u8
  ns_flags :: u64
  ns_noiob :: u16
  ns_fault_inject :: "nvme_fault_inject option" \<comment> \<open>with fault injection only\<close>

subsection \<open>Inline functions\<close>

text \<open>The private data of a request, of all requests in memory.\<close>

definition nvme_req :: "(ptr \<Rightarrow> nvme_request) \<Rightarrow> ptr \<Rightarrow> nvme_request" where
  "nvme_req blk_mq_rq_to_pdu req = blk_mq_rq_to_pdu req"

definition nvme_req_qid :: "(ptr \<Rightarrow> ptr) \<Rightarrow> (ptr \<Rightarrow> u32) \<Rightarrow> (u32 \<Rightarrow> u16) \<Rightarrow> ptr \<Rightarrow> u16" where
  "nvme_req_qid rq_disk blk_mq_unique_tag blk_mq_unique_tag_to_hwq req =
     (if rq_disk req = 0 then 0
      else blk_mq_unique_tag_to_hwq (blk_mq_unique_tag req) + 1)"

definition nvme_ctrl_ready :: "nvme_ctrl \<Rightarrow> (nvme_event, bool) io" where
  "nvme_ctrl_ready ctrl = do {
     (err, val) \<leftarrow> ask (\<lambda>h. reg_read32 (ctrl_ops ctrl) h (ctrl_self ctrl) NVME_REG_CSTS)
                    (\<lambda>(e, v). RegRead32 (ctrl_self ctrl) NVME_REG_CSTS e v);
     if err \<noteq> 0 then State_Monad.return False
     else State_Monad.return (val AND NVME_CSTS_RDY \<noteq> 0)
   }"

definition nvme_reset_subsystem :: "nvme_ctrl \<Rightarrow> (nvme_event, s32) io" where
  "nvme_reset_subsystem ctrl =
     (if \<not> ctrl_subsystem ctrl then State_Monad.return (- ENOTTY)
      else ask (\<lambda>h. reg_write32 (ctrl_ops ctrl) h (ctrl_self ctrl) NVME_REG_NSSR 0x4E564D65)
             (\<lambda>r. RegWrite32 (ctrl_self ctrl) NVME_REG_NSSR 0x4E564D65 r))"

definition nvme_block_nr :: "nvme_ns \<Rightarrow> u64 \<Rightarrow> u64 option" where
  "nvme_block_nr ns sector = c_shr64 sector (ns_lba_shift ns - 9)"

text \<open>
  Fault injection, when it is configured, is code outside the header that may rewrite the
  private data of the request.
\<close>

definition nvme_should_fail ::
  "nvme_config \<Rightarrow> (nvme_event list \<Rightarrow> nvme_request \<Rightarrow> nvme_request) \<Rightarrow> ptr \<Rightarrow> nvme_request \<Rightarrow>
   (nvme_event, nvme_request) io" where
  "nvme_should_fail cfg inject req rq =
     (if cfg_fault_injection cfg then ask (\<lambda>h. inject h rq) (\<lambda>_. ShouldFail req)
      else State_Monad.return rq)"

definition nvme_end_request ::
  "nvme_config \<Rightarrow> (nvme_event list \<Rightarrow> nvme_request \<Rightarrow> nvme_request) \<Rightarrow> (ptr \<Rightarrow> nvme_request) \<Rightarrow>
   ptr \<Rightarrow> u16 \<Rightarrow> u64 \<Rightarrow> (nvme_event, ptr \<Rightarrow> nvme_request) io" where
  "nvme_end_request cfg inject pdu req status result = do {
     let rq = (nvme_req pdu req)
       \<lparr>nr_status := drop_bit 1 (le16_to_cpu (cfg_big_endian cfg) status), nr_result := result\<rparr>;
     rq' \<leftarrow> nvme_should_fail cfg inject req rq;
     emit (CompleteRequest req);
     State_Monad.return (pdu(req := rq'))
   }"

definition nvme_get_ctrl :: "nvme_ctrl \<Rightarrow> (nvme_event, unit) io" where
  "nvme_get_ctrl ctrl = emit (GetDevice (ctrl_device ctrl))"

definition nvme_put_ctrl :: "nvme_ctrl \<Rightarrow> (nvme_event, unit) io" where
  "nvme_put_ctrl ctrl = emit (PutDevice (ctrl_device ctrl))"

definition nvme_mpath_check_last_path :: "nvme_config \<Rightarrow> nvme_ns \<Rightarrow> (nvme_event, unit) io" where
  "nvme_mpath_check_last_path cfg ns =
     (if cfg_multipath cfg then
        (let head = ns_head ns in
         if head_disk head \<noteq> 0 \<and> head_list head = [] then
           emit (KblockdSchedule (head_requeue_work head))
         else State_Monad.return ())
      else State_Monad.return ())"

text \<open>
  The stand-ins without multipath support. The names of the disks are built from the instance of
  the controller and the instance of the namespace.
\<close>

definition nvme_ctrl_use_ana :: "nvme_ctrl \<Rightarrow> bool" where
  "nvme_ctrl_use_ana ctrl = False"

definition nvme_set_disk_name :: "nvme_ns \<Rightarrow> nvme_ctrl \<Rightarrow> string" where
  "nvme_set_disk_name ns ctrl =
     ''nvme'' @ show_int (sint (ctrl_instance ctrl)) @ ''n'' @
     show_int (sint (head_instance (ns_head ns)))"

definition nvme_mpath_alloc_disk :: "nvme_ctrl \<Rightarrow> nvme_ns_head \<Rightarrow> s32" where
  "nvme_mpath_alloc_disk ctrl head = 0"

definition nvme_mpath_init :: "nvme_ctrl \<Rightarrow> (nvme_event, s32) io" where
  "nvme_mpath_init ctrl = do {
     (if subsys_cmic (ctrl_subsys ctrl) AND push_bit 3 1 \<noteq> 0 then
        emit (DevWarn (ctrl_device ctrl)
          (''Please enable CONFIG_NVME_MULTIPATH for full support of multi-port devices.'' @ [CHR 0x0A]))
      else State_Monad.return ());
     State_Monad.return 0
   }"

text \<open>The ones that do nothing.\<close>

definition nvme_failover_req :: "ptr \<Rightarrow> (nvme_event, unit) io" where
  "nvme_failover_req req = State_Monad.return ()"

definition nvme_kick_requeue_lists :: "nvme_ctrl \<Rightarrow> (nvme_event, unit) io" where
  "nvme_kick_requeue_lists ctrl = State_Monad.return ()"

definition nvme_mpath_add_disk :: "nvme_ns \<Rightarrow> ptr \<Rightarrow> (nvme_event, unit) io" where
  "nvme_mpath_add_disk ns id_ns = State_Monad.return ()"

definition nvme_mpath_remove_disk :: "nvme_ns_head \<Rightarrow> (nvme_event, unit) io" where
  "nvme_mpath_remove_disk head = State_Monad.return ()"

definition nvme_mpath_clear_current_path :: "nvme_ns \<Rightarrow> (nvme_event, unit) io" where
  "nvme_mpath_clear_current_path ns = State_Monad.return ()"

definition nvme_mpath_uninit :: "nvme_ctrl \<Rightarrow> (nvme_event, unit) io" where
  "nvme_mpath_uninit ctrl = State_Monad.return ()"

definition nvme_mpath_stop :: "nvme_ctrl \<Rightarrow> (nvme_event, unit) io" where
  "nvme_mpath_stop ctrl = State_Monad.return ()"

text \<open>The stand-ins without LightNVM support.\<close>

definition nvme_nvm_update_nvm_info :: "nvme_ns \<Rightarrow> (nvme_event, unit) io" where
  "nvme_nvm_update_nvm_info ns = State_Monad.return ()"

definition nvme_nvm_unregister :: "nvme_ns \<Rightarrow> (nvme_event, unit) io" where
  "nvme_nvm_unregister ns = State_Monad.return ()"

definition nvme_nvm_register :: "nvme_ns \<Rightarrow> string \<Rightarrow> s32 \<Rightarrow> s32" where
  "nvme_nvm_register ns disk_name node = 0"

definition nvme_nvm_ioctl :: "nvme_ns \<Rightarrow> u32 \<Rightarrow> u64 \<Rightarrow> s32" where
  "nvme_nvm_ioctl ns cmd arg = - ENOTTY"

definition nvme_get_ns_from_dev :: "(ptr \<Rightarrow> ptr) \<Rightarrow> (ptr \<Rightarrow> nvme_ns) \<Rightarrow> ptr \<Rightarrow> nvme_ns" where
  "nvme_get_ns_from_dev dev_to_disk private_data dev = private_data (dev_to_disk dev)"

subsection \<open>Properties\<close>

lemma nvme_block_nr_eq:
  "nvme_block_nr ns sector =
     (if 9 \<le> sint (ns_lba_shift ns) \<and> sint (ns_lba_shift ns) < 73
      then Some (drop_bit (nat (sint (ns_lba_shift ns) - 9)) sector) else None)"
  using sint_s32_range [of "ns_lba_shift ns"]
  by (auto simp: nvme_block_nr_def c_shr64_def sint_minus_9)

lemma nvme_quirk_value_disjoint: "nvme_quirk_value q AND nvme_quirk_value r \<noteq> 0 \<longleftrightarrow> q = r"
  by (cases q; cases r; simp)

text \<open>The word a set of quirks is kept in, as the drivers build \<open>quirks\<close>: the OR of the values.\<close>

fun quirks_word :: "nvme_quirks list \<Rightarrow> u64" where
  "quirks_word [] = 0"
| "quirks_word (q # qs) = nvme_quirk_value q OR quirks_word qs"

text \<open>
  The quirk values are distinct single bits: testing a word built by OR-ing quirks
  against a quirk finds exactly the quirks that were put in.
\<close>

theorem quirk_test_exact: "quirks_word qs AND nvme_quirk_value q \<noteq> 0 \<longleftrightarrow> q \<in> set qs"
proof (induction qs)
  case (Cons r qs)
  have "quirks_word (r # qs) AND nvme_quirk_value q =
      (nvme_quirk_value r AND nvme_quirk_value q) OR (quirks_word qs AND nvme_quirk_value q)"
    by (simp add: bit.conj_disj_distrib2)
  moreover have "(a OR b \<noteq> 0) \<longleftrightarrow> (a \<noteq> 0 \<or> b \<noteq> 0)" for a b :: u64
    by (metis or_eq_0_iff)
  ultimately show ?case
    using Cons nvme_quirk_value_disjoint [of r q] by auto
qed simp

text \<open>
  The block number of a sector is the sector divided by the number of 512-byte sectors
  in a block; it is undefined exactly when blocks are smaller than a sector or the shift
  does not fit the word.
\<close>

theorem nvme_block_nr_quotient:
  "case nvme_block_nr ns sector of
     None \<Rightarrow> sint (ns_lba_shift ns) < 9 \<or> 73 \<le> sint (ns_lba_shift ns)
   | Some b \<Rightarrow> 9 \<le> sint (ns_lba_shift ns) \<and> sint (ns_lba_shift ns) < 73 \<and>
       unat b * 2 ^ nat (sint (ns_lba_shift ns) - 9) \<le> unat sector \<and>
       unat sector < (unat b + 1) * 2 ^ nat (sint (ns_lba_shift ns) - 9)"
proof -
  have q: "a div k * k \<le> a \<and> a < (a div k + 1) * k" if "0 < k" for a k :: nat
    using dividend_less_div_times [OF that, of a] by (simp add: algebra_simps)
  show ?thesis
    using q [of "2 ^ nat (sint (ns_lba_shift ns) - 9)" "unat sector"]
    by (auto simp: nvme_block_nr_eq unat_drop_bit_div)
qed

text \<open>
  Disk names are unique: two namespaces get the same name only when both the controller
  instance and the namespace instance agree, whatever the instances are.
\<close>

theorem nvme_set_disk_name_unique:
  "nvme_set_disk_name ns ctrl = nvme_set_disk_name ns' ctrl' \<longleftrightarrow>
     ctrl_instance ctrl = ctrl_instance ctrl' \<and>
     head_instance (ns_head ns) = head_instance (ns_head ns')"
proof
  assume "nvme_set_disk_name ns ctrl = nvme_set_disk_name ns' ctrl'"
  then have "show_int (sint (ctrl_instance ctrl)) @ CHR ''n'' # show_int (sint (head_instance (ns_head ns))) =
      show_int (sint (ctrl_instance ctrl')) @ CHR ''n'' # show_int (sint (head_instance (ns_head ns')))"
    by (simp add: nvme_set_disk_name_def)
  from split_at_first [OF not_n_in_show_int not_n_in_show_int this]
  show "ctrl_instance ctrl = ctrl_instance ctrl' \<and>
      head_instance (ns_head ns) = head_instance (ns_head ns')"
    by (auto simp: show_int_inj intro: signed_word_eqI)
qed (simp add: nvme_set_disk_name_def)

text \<open>
  Completing a request stores the status without its phase bit and the result, completes
  that request once, and leaves the private data of every other request alone.
\<close>

theorem nvme_end_request_stores:
  assumes "\<not> cfg_fault_injection cfg" and "\<not> cfg_big_endian cfg"
  shows "run_state (nvme_end_request cfg inject pdu req status result) h =
    (pdu(req := (pdu req)\<lparr>nr_status := drop_bit 1 status, nr_result := result\<rparr>),
     h @ [CompleteRequest req])"
  using assms by (simp add: nvme_end_request_def nvme_should_fail_def nvme_req_def)

definition demo_cfg :: nvme_config where
  "demo_cfg = \<lparr>cfg_big_endian = False, cfg_multipath = False, cfg_fault_injection = False\<rparr>"

definition demo_pdu :: "ptr \<Rightarrow> nvme_request" where
  "demo_pdu = (\<lambda>_. \<lparr>nr_cmd = 0, nr_result = 0, nr_retries = 0, nr_flags = 0, nr_status = 0,
     nr_ctrl = 0\<rparr>)"

theorem nvme_end_request_stores_witness:
  "nr_status (fst (run_state (nvme_end_request demo_cfg (\<lambda>_ r. r) demo_pdu 7 5 9) []) 7) = 2 \<and>
   nr_status (fst (run_state (nvme_end_request demo_cfg (\<lambda>_ r. r) demo_pdu 7 5 9) []) 8) = 0"
  by (subst nvme_end_request_stores, simp_all add: demo_cfg_def)+ (simp add: demo_pdu_def)

text \<open>
  A subsystem reset touches the controller only when the controller supports it; then it
  writes the four letters of NVMe, read as a big-endian number, to the reset register, and
  returns what the register write returned. Otherwise it fails with -ENOTTY.
\<close>

theorem nvme_reset_subsystem_spec:
  "run_state (nvme_reset_subsystem ctrl) h =
     (if ctrl_subsystem ctrl then
        let r = reg_write32 (ctrl_ops ctrl) h (ctrl_self ctrl) NVME_REG_NSSR
                  (fold (\<lambda>c v. push_bit 8 v OR of_char c) ''NVMe'' 0)
        in (r, h @ [RegWrite32 (ctrl_self ctrl) NVME_REG_NSSR 0x4E564D65 r])
      else (- ENOTTY, h))"
  by (simp add: nvme_reset_subsystem_def Let_def)

end
