(* ===== verification/Kernel_Api.thy ===== *)
theory Kernel_Api
  imports Nvme
begin

section \<open>The kernel as the packet generator sees it\<close>

text \<open>
  The structures of native-driver/nvpkt.h, the kernel structures nvpkt.c reads and writes (with
  the fields it uses), the events of its calls into the kernel, and the kernel itself: a record
  with one function per kernel function the module calls. None of that code is in the
  repository, so a \<open>kernel\<close> is an argument of every definition that calls into it. A function
  whose answer may vary takes the history of the calls first. The documented behaviour some
  properties rely on is stated by the predicates at the end; a concrete kernel that satisfies
  them shows that they can hold.
\<close>

subsection \<open>The user interface of the module (nvpkt.h)\<close>

record nvpkt_xmit =
  xmit_len :: u64
  xmit_slba :: u64
  xmit_count :: u64

record nvme_user_io =
  io_opcode :: u8
  io_flags :: u8
  io_control :: u16
  io_nblocks :: u16
  io_metadata :: u64
  io_addr :: u64
  io_slba :: u64
  io_dsmgmt :: u32
  io_reftag :: u32
  io_apptag :: u16
  io_appmask :: u16

text \<open>
  The ioctl numbers: direction, argument size, type letter and number in one word, as
  \<open>_IOW\<close> packs them. The structures are 48 and 24 bytes long.
\<close>

definition IOW :: "char \<Rightarrow> u32 \<Rightarrow> u32 \<Rightarrow> u32" where
  "IOW type nr sz = push_bit 30 1 OR push_bit 16 sz OR push_bit 8 (of_char type) OR nr"

definition NVPKT_IOCTL_SUBMIT_IO :: u32 where
  "NVPKT_IOCTL_SUBMIT_IO = IOW CHR ''N'' 0x42 48"

definition NVPKT_IOCTL_TXPKT :: u32 where
  "NVPKT_IOCTL_TXPKT = IOW CHR ''N'' 0x43 24"

definition NVPKT_IOCTL_TXPKT_COUNT :: u32 where
  "NVPKT_IOCTL_TXPKT_COUNT = IOW CHR ''N'' 0x44 24"

subsection \<open>Kernel structures\<close>

text \<open>One mapping a scatterlist iterator presents: page, offset in it, length and address.\<close>

record seg =
  seg_page :: ptr
  seg_off :: u32
  seg_len :: u64
  seg_addr :: ptr

record frag =
  frag_page :: ptr
  frag_off :: u32
  frag_size :: u32

record sk_buff =
  skb_data :: ptr
  skb_len :: u32
  skb_data_len :: u32
  skb_frags :: "int \<rightharpoonup> frag"
  skb_dev :: ptr
  skb_mac_header :: u16

record bio_vec =
  bv_page :: ptr
  bv_len :: u32
  bv_off :: u32

record bio =
  bio_addr :: ptr
  bio_vecs :: "bio_vec list"
  bio_disk :: ptr

record rw_command =
  rw_opcode :: u8
  rw_flags :: u8
  rw_command_id :: u16
  rw_nsid :: u32
  rw_metadata :: u64
  rw_slba :: u64
  rw_length :: u16
  rw_control :: u16
  rw_dsmgmt :: u32
  rw_reftag :: u32
  rw_apptag :: u16
  rw_appmask :: u16

text \<open>The command after \<open>memset (&c, 0, sizeof (c))\<close>.\<close>

definition zero_command :: rw_command where
  "zero_command = \<lparr>rw_opcode = 0, rw_flags = 0, rw_command_id = 0, rw_nsid = 0, rw_metadata = 0,
     rw_slba = 0, rw_length = 0, rw_control = 0, rw_dsmgmt = 0, rw_reftag = 0, rw_apptag = 0,
     rw_appmask = 0\<rparr>"

record request =
  rq_addr :: ptr
  rq_queue :: ptr
  rq_timeout :: u32
  rq_flags :: u8 \<comment> \<open>\<open>flags\<close> of the private data, \<open>struct nvme_request\<close>\<close>
  rq_bio :: "bio option" \<comment> \<open>None for NULL\<close>

subsection \<open>Events\<close>

datatype kevent =
    CopyFromUser u64 u64 u64 \<comment> \<open>user address, size, bytes not copied\<close>
  | SglAlloc u64 "(ptr \<times> u32) option"
  | MiterStart ptr u32
  | MiterStop
  | BuildSkb ptr u32 bool
  | SkbPut u32
  | SkbFill int ptr u32 u32
  | AllocRequest rw_command "s64 + ptr"
  | BioKmalloc u32 bool
  | BioAddPage ptr u32 u32 s32
  | AppendBio ptr s32
  | MapUser ptr u64 u32 s32
  | ExecuteRq request u8 u16
  | UnmapUser
  | QueueXmit sk_buff s32
  | FreeRequest ptr
  | LookupDevt string u32
  | GetGendisk u32 ptr
  | DiskGetPart ptr s32 ptr
  | DevGetByName string ptr
  | MiscRegister string s32
  | DevPut ptr
  | DiskPutPart ptr
  | MiscDeregister

subsection \<open>The kernel\<close>

record kernel =
  k_big_endian :: bool
  k_shinfo :: u64 \<comment> \<open>\<open>sizeof (struct skb_shared_info)\<close>\<close>
  k_admin_timeout :: u32 \<comment> \<open>\<open>ADMIN_TIMEOUT\<close>: admin_timeout * HZ\<close>
  k_private_data :: "ptr \<Rightarrow> nvme_ns"
  k_copy_xmit :: "kevent list \<Rightarrow> u64 \<Rightarrow> u64 \<times> nvpkt_xmit"
  k_copy_io :: "kevent list \<Rightarrow> u64 \<Rightarrow> u64 \<times> nvme_user_io"
  k_sgl_alloc :: "kevent list \<Rightarrow> u64 \<Rightarrow> (ptr \<times> u32) option"
  k_segments :: "ptr \<Rightarrow> u32 \<Rightarrow> seg list"
  k_build_skb :: "kevent list \<Rightarrow> ptr \<Rightarrow> u32 \<Rightarrow> sk_buff option"
  k_skb_put :: "sk_buff \<Rightarrow> u32 \<Rightarrow> sk_buff"
  k_skb_fill_page_desc :: "sk_buff \<Rightarrow> int \<Rightarrow> ptr \<Rightarrow> u32 \<Rightarrow> u32 \<Rightarrow> sk_buff"
  k_skb_set_mac_header :: "sk_buff \<Rightarrow> s32 \<Rightarrow> sk_buff"
  k_alloc_request :: "kevent list \<Rightarrow> ptr \<Rightarrow> rw_command \<Rightarrow> s64 + request"
  k_bio_kmalloc :: "kevent list \<Rightarrow> u32 \<Rightarrow> bio option"
  k_bio_add_pc_page :: "kevent list \<Rightarrow> ptr \<Rightarrow> bio \<Rightarrow> ptr \<Rightarrow> u32 \<Rightarrow> u32 \<Rightarrow> s32 \<times> bio"
  k_append_bio :: "kevent list \<Rightarrow> request \<Rightarrow> bio \<Rightarrow> s32 \<times> bio option"
  k_map_user :: "kevent list \<Rightarrow> request \<Rightarrow> u64 \<Rightarrow> u32 \<Rightarrow> s32 \<times> bio option"
  k_execute_rq :: "kevent list \<Rightarrow> request \<Rightarrow> u8 \<times> u16"
  k_queue_xmit :: "kevent list \<Rightarrow> sk_buff \<Rightarrow> s32"
  k_lookup_devt :: "kevent list \<Rightarrow> string \<Rightarrow> u32"
  k_get_gendisk :: "kevent list \<Rightarrow> u32 \<Rightarrow> ptr \<times> s32"
  k_disk_get_part :: "kevent list \<Rightarrow> ptr \<Rightarrow> s32 \<Rightarrow> ptr"
  k_dev_get_by_name :: "kevent list \<Rightarrow> string \<Rightarrow> ptr"
  k_misc_register :: "kevent list \<Rightarrow> string \<Rightarrow> s32"

subsection \<open>Documented behaviour some properties assume\<close>

text \<open>
  \<open>build_skb\<close> makes an empty buffer around the given data; \<open>skb_put\<close> extends its linear part;
  \<open>skb_fill_page_desc\<close> writes one fragment descriptor and no length;
  \<open>skb_set_mac_header\<close> sets that field only.
\<close>

definition skb_api_ok :: "kernel \<Rightarrow> bool" where
  "skb_api_ok K \<longleftrightarrow>
     (\<forall>h a l s. k_build_skb K h a l = Some s \<longrightarrow>
        skb_data s = a \<and> skb_len s = 0 \<and> skb_data_len s = 0 \<and> skb_frags s = Map.empty) \<and>
     (\<forall>s l. k_skb_put K s l = s\<lparr>skb_len := skb_len s + l\<rparr>) \<and>
     (\<forall>s i p l z. k_skb_fill_page_desc K s i p l z =
        s\<lparr>skb_frags := (skb_frags s)(i \<mapsto> \<lparr>frag_page = p, frag_off = l, frag_size = z\<rparr>)\<rparr>) \<and>
     (\<forall>s i. \<exists>m. k_skb_set_mac_header K s i = s\<lparr>skb_mac_header := m\<rparr>)"

text \<open>
  The scatterlist \<open>sgl_alloc\<close> returns for a length: non-empty mappings, each within one page and
  all but the last of them a whole page, that add up to the length.
\<close>

definition PAGE_SIZE :: nat where
  "PAGE_SIZE = 4096"

definition page_chunks :: "nat \<Rightarrow> seg list \<Rightarrow> bool" where
  "page_chunks n segs \<longleftrightarrow>
     sum_list (map (\<lambda>s. unat (seg_len s)) segs) = n \<and>
     (\<forall>s \<in> set segs. 0 < unat (seg_len s) \<and> unat (seg_len s) \<le> PAGE_SIZE) \<and>
     (\<forall>s \<in> set (butlast segs). unat (seg_len s) = PAGE_SIZE)"

definition sgl_alloc_ok :: "kernel \<Rightarrow> bool" where
  "sgl_alloc_ok K \<longleftrightarrow> (\<forall>h n p nents. k_sgl_alloc K h n = Some (p, nents) \<longrightarrow>
     page_chunks (unat n) (k_segments K p nents))"

text \<open>\<open>bio_add_pc_page\<close> adds the whole range or nothing, and says how many bytes it added.\<close>

definition bio_add_ok :: "kernel \<Rightarrow> bool" where
  "bio_add_ok K \<longleftrightarrow> (\<forall>h q b p l f.
     k_bio_add_pc_page K h q b p l f = (l, b\<lparr>bio_vecs := bio_vecs b @ [\<lparr>bv_page = p, bv_len = l, bv_off = f\<rparr>]\<rparr>)
     \<or> k_bio_add_pc_page K h q b p l f = (0, b))"

subsection \<open>A kernel on which everything succeeds\<close>

text \<open>
  Used by the witnesses: memory is handed out in whole pages, the handle of a scatterlist being
  its length; every call succeeds and the device reports no error.
\<close>

function demo_pages :: "nat \<Rightarrow> nat \<Rightarrow> seg list" where
  "demo_pages n i =
     (if n = 0 then []
      else \<lparr>seg_page = of_nat i, seg_off = 0, seg_len = of_nat (min n PAGE_SIZE),
             seg_addr = of_nat (i * PAGE_SIZE)\<rparr> # demo_pages (n - PAGE_SIZE) (Suc i))"
  by pat_completeness auto
termination
  by (relation "measure fst") (auto simp: PAGE_SIZE_def)

declare demo_pages.simps [simp del]

definition demo_ns :: nvme_ns where
  "demo_ns = \<lparr>ns_ctrl = 0x10, ns_queue = 0x20, ns_disk = 0x30, ns_ana_state = 0, ns_ana_grpid = 0, ns_ndev = 0,
     ns_head = \<lparr>head_list = [], head_subsys = 0, head_ns_id = 1, head_ids = \<lparr>ids_eui64 = [], ids_nguid = [], ids_uuid = []\<rparr>,
       head_instance = 1, head_disk = 0, head_requeue_list = [], head_requeue_work = 0, head_current_path = []\<rparr>,
     ns_lba_shift = 9, ns_ms = 0, ns_sgs = 0, ns_sws = 0, ns_ext = False, ns_pi_type = 0,
     ns_flags = 0, ns_noiob = 0, ns_fault_inject = None\<rparr>"

definition demo_kernel :: kernel where
  "demo_kernel = \<lparr>
     k_big_endian = False,
     k_shinfo = 320,
     k_admin_timeout = 15000,
     k_private_data = (\<lambda>_. demo_ns),
     k_copy_xmit = (\<lambda>h a. (0, \<lparr>xmit_len = 1024, xmit_slba = 1, xmit_count = 2\<rparr>)),
     k_copy_io = (\<lambda>h a. (0, \<lparr>io_opcode = 1, io_flags = 0, io_control = 0, io_nblocks = 1,
        io_metadata = 0, io_addr = 0x1000, io_slba = 1, io_dsmgmt = 0, io_reftag = 0,
        io_apptag = 0, io_appmask = 0\<rparr>)),
     k_sgl_alloc = (\<lambda>h n. Some (n, of_nat ((unat n + (PAGE_SIZE - 1)) div PAGE_SIZE))),
     k_segments = (\<lambda>p nents. demo_pages (unat p) 0),
     k_build_skb = (\<lambda>h a l. Some \<lparr>skb_data = a, skb_len = 0, skb_data_len = 0,
        skb_frags = Map.empty, skb_dev = 0, skb_mac_header = 0xffff\<rparr>),
     k_skb_put = (\<lambda>s l. s\<lparr>skb_len := skb_len s + l\<rparr>),
     k_skb_fill_page_desc = (\<lambda>s i p l z.
        s\<lparr>skb_frags := (skb_frags s)(i \<mapsto> \<lparr>frag_page = p, frag_off = l, frag_size = z\<rparr>)\<rparr>),
     k_skb_set_mac_header = (\<lambda>s i. s\<lparr>skb_mac_header := ucast i\<rparr>),
     k_alloc_request = (\<lambda>h q c. Inr \<lparr>rq_addr = 0x40, rq_queue = q, rq_timeout = 0, rq_flags = 0,
        rq_bio = None\<rparr>),
     k_bio_kmalloc = (\<lambda>h n. Some \<lparr>bio_addr = 0x50, bio_vecs = [], bio_disk = 0\<rparr>),
     k_bio_add_pc_page = (\<lambda>h q b p l f.
        (l, b\<lparr>bio_vecs := bio_vecs b @ [\<lparr>bv_page = p, bv_len = l, bv_off = f\<rparr>]\<rparr>)),
     k_append_bio = (\<lambda>h r b. (0, Some b)),
     k_map_user = (\<lambda>h r a l. (0, Some \<lparr>bio_addr = 0x50, bio_vecs = [], bio_disk = 0\<rparr>)),
     k_execute_rq = (\<lambda>h r. (0, 0)),
     k_queue_xmit = (\<lambda>h s. 0),
     k_lookup_devt = (\<lambda>h s. 0x10300001),
     k_get_gendisk = (\<lambda>h d. (0x30, 0)),
     k_disk_get_part = (\<lambda>h d p. 0x60),
     k_dev_get_by_name = (\<lambda>h s. 0x70),
     k_misc_register = (\<lambda>h s. 0)\<rparr>"

lemma demo_pages_ok: "n < 2 ^ 64 \<Longrightarrow> page_chunks n (demo_pages n i)"
proof (induction n i rule: demo_pages.induct)
  case (1 n i)
  show ?case
  proof (cases "n = 0")
    case True
    then show ?thesis by (simp add: demo_pages.simps page_chunks_def)
  next
    case False
    let ?r = "n - PAGE_SIZE"
    have IH: "page_chunks ?r (demo_pages ?r (Suc i))"
      using 1 False by simp
    have len: "unat (of_nat (min n PAGE_SIZE) :: u64) = min n PAGE_SIZE"
      using "1.prems" by (simp add: unsigned_of_nat take_bit_nat_eq_self)
    have "demo_pages ?r (Suc i) = []" if "n \<le> PAGE_SIZE"
      using that by (simp add: demo_pages.simps)
    with IH len False show ?thesis
      by (cases "n \<le> PAGE_SIZE")
        (auto simp: demo_pages.simps [of n] page_chunks_def PAGE_SIZE_def)
  qed
qed

lemma demo_kernel_ok:
  "skb_api_ok demo_kernel" "sgl_alloc_ok demo_kernel" "bio_add_ok demo_kernel"
  using unsigned_less [where 'b = 64]
  by (auto simp: skb_api_ok_def sgl_alloc_ok_def bio_add_ok_def demo_kernel_def intro!: demo_pages_ok)

end
