(* ===== verification/Sg_Map.thy ===== *)
theory Sg_Map
  imports Kernel_Api
begin

section \<open>Mapping a scatterlist into a socket buffer and into a bio\<close>

text \<open>
  The two helpers of native-driver/nvpkt.c that walk the packet's memory: \<open>skb_from_sgvec\<close>
  builds the socket buffer that is sent, \<open>blk_rq_map_from_sgl\<close> the bio that the device fills.
  Each is a loop over the mappings the iterator presents, with the running \<open>offset\<close> kept in 32
  bits and compared with the 64-bit \<open>length\<close>, as in the code. The log messages are left out.
\<close>

subsection \<open>The two functions\<close>

text \<open>The bytes taken from one mapping: \<open>min (miter.length, length - offset)\<close>, stored in 32 bits.\<close>

definition miter_len :: "seg \<Rightarrow> u64 \<Rightarrow> u32 \<Rightarrow> u32" where
  "miter_len miter buf_len offset = ucast (min (seg_len miter) (buf_len - ucast offset))"

text \<open>The size without the shared info at the tail of the buffer, an unsigned subtraction.\<close>

definition minus_shinfo :: "kernel \<Rightarrow> u32 \<Rightarrow> u32" where
  "minus_shinfo K len = ucast (ucast len - k_shinfo K :: u64)"

text \<open>The result: an error, or the buffer (None where \<open>skb\<close> is still NULL after the loop).\<close>

fun skb_from_sgvec_loop ::
  "kernel \<Rightarrow> u64 \<Rightarrow> seg list \<Rightarrow> u32 \<Rightarrow> int \<Rightarrow> sk_buff option \<Rightarrow>
   (kevent, s32 + sk_buff option) io" where
  "skb_from_sgvec_loop K buf_len [] offset n skb = State_Monad.return (Inr skb)"
| "skb_from_sgvec_loop K buf_len (miter # miters) offset n skb =
     (if ucast offset < buf_len then
        let len = miter_len miter buf_len offset in
        (case skb of
           None \<Rightarrow> do {
             built \<leftarrow> ask (\<lambda>h. k_build_skb K h (seg_addr miter) len)
                         (\<lambda>r. BuildSkb (seg_addr miter) len (r \<noteq> None));
             (case built of
                None \<Rightarrow> State_Monad.return (Inl (- ENOMEM))
              | Some s \<Rightarrow> do {
                  emit (SkbPut (minus_shinfo K len));
                  skb_from_sgvec_loop K buf_len miters (offset + len) n
                    (Some (k_skb_put K s (minus_shinfo K len)))
                })
           }
         | Some s \<Rightarrow> do {
             emit (SkbFill n (seg_page miter) (seg_off miter) len);
             let s1 = k_skb_fill_page_desc K s n (seg_page miter) (seg_off miter) len;
             skb_from_sgvec_loop K buf_len miters (offset + len) (n + 1)
               (Some (s1\<lparr>skb_len := skb_len s1 + len, skb_data_len := skb_data_len s1 + len\<rparr>))
           })
      else State_Monad.return (Inr skb))"

definition skb_from_sgvec ::
  "kernel \<Rightarrow> ptr \<Rightarrow> u32 \<Rightarrow> u64 \<Rightarrow> (kevent, s32 + sk_buff option) io" where
  "skb_from_sgvec K sgl nents buf_len = do {
     emit (MiterStart sgl nents);
     r \<leftarrow> skb_from_sgvec_loop K buf_len (k_segments K sgl nents) 0 0 None;
     (case r of
        Inl err \<Rightarrow> State_Monad.return (Inl err)
      | Inr skb \<Rightarrow> do {
          emit MiterStop;
          State_Monad.return (Inr skb)
        })
   }"

fun blk_rq_map_from_sgl_loop ::
  "kernel \<Rightarrow> request \<Rightarrow> u64 \<Rightarrow> seg list \<Rightarrow> u32 \<Rightarrow> bio \<Rightarrow> (kevent, bio) io" where
  "blk_rq_map_from_sgl_loop K req buf_len [] offset b = State_Monad.return b"
| "blk_rq_map_from_sgl_loop K req buf_len (miter # miters) offset b =
     (if ucast offset < buf_len then do {
        let len = miter_len miter buf_len offset;
        let dma_len = (if offset = 0 then minus_shinfo K len else len);
        (ret, b') \<leftarrow> ask (\<lambda>h. k_bio_add_pc_page K h (rq_queue req) b (seg_page miter) dma_len
                            (seg_off miter))
                       (\<lambda>(r, _). BioAddPage (seg_page miter) dma_len (seg_off miter) r);
        blk_rq_map_from_sgl_loop K req buf_len miters (offset + len) b'
      }
      else State_Monad.return b)"

text \<open>The result is the return value and the request, whose \<open>bio\<close> may have been set.\<close>

definition blk_rq_map_from_sgl ::
  "kernel \<Rightarrow> request \<Rightarrow> ptr \<Rightarrow> u32 \<Rightarrow> u64 \<Rightarrow> (kevent, s32 \<times> request) io" where
  "blk_rq_map_from_sgl K req sgl nents buf_len = do {
     allocated \<leftarrow> ask (\<lambda>h. k_bio_kmalloc K h nents) (\<lambda>r. BioKmalloc nents (r \<noteq> None));
     (case allocated of
        None \<Rightarrow> State_Monad.return (- ENOMEM, req)
      | Some b \<Rightarrow> do {
          emit (MiterStart sgl nents);
          b' \<leftarrow> blk_rq_map_from_sgl_loop K req buf_len (k_segments K sgl nents) 0 b;
          emit MiterStop;
          (ret, bio') \<leftarrow> ask (\<lambda>h. k_append_bio K h req b') (\<lambda>(r, _). AppendBio (rq_addr req) r);
          State_Monad.return (ret, req\<lparr>rq_bio := bio'\<rparr>)
        })
   }"

subsection \<open>Word-level iteration against byte counts\<close>


abbreviation seg_bytes :: "seg list \<Rightarrow> nat" where
  "seg_bytes segs \<equiv> sum_list (map (\<lambda>s. unat (seg_len s)) segs)"

lemma unat_min: "unat (min a b) = min (unat a) (unat b)"
  by (simp add: min_def word_le_nat_alt)

lemma unat_ucast_64_32: "unat (x :: u64) < 2 ^ 32 \<Longrightarrow> unat (ucast x :: u32) = unat x"
  by (simp add: unsigned_ucast_eq take_bit_nat_eq_self)

lemma miter_guard:
  "unat offset + r = unat buf_len \<Longrightarrow> ucast (offset :: u32) < (buf_len :: u64) \<longleftrightarrow> 0 < r"
  by (auto simp: word_less_nat_alt)

lemma unat_miter_len:
  assumes "unat offset + r = unat buf_len" "unat buf_len < 2 ^ 32"
  shows "unat (miter_len m buf_len offset) = min (unat (seg_len m)) r"
proof -
  have "unat (buf_len - ucast offset) = r"
    using assms by (simp add: unat_sub word_le_nat_alt)
  then have "unat (min (seg_len m) (buf_len - ucast offset)) = min (unat (seg_len m)) r"
    by (simp add: unat_min)
  then show ?thesis
    using assms by (simp add: miter_len_def unat_ucast_64_32)
qed

lemma miter_advance:
  assumes "unat offset + r = unat buf_len" "unat buf_len < 2 ^ 32"
  shows "unat (offset + miter_len m buf_len offset) + (r - min (unat (seg_len m)) r) = unat buf_len"
proof -
  have "unat (offset + miter_len m buf_len offset) = unat offset + min (unat (seg_len m)) r"
    using assms by (subst unat_add_lem [THEN iffD1]) (simp_all add: unat_miter_len)
  with assms show ?thesis by simp
qed

lemma miter_len_exact:
  assumes "unat offset + r = unat buf_len" "unat buf_len < 2 ^ 32" "unat (seg_len m) \<le> r"
  shows "miter_len m buf_len offset = ucast (seg_len m)"
proof -
  have "unat (seg_len m) < 2 ^ 32" using assms by simp
  then have "unat (ucast (seg_len m) :: u32) = unat (seg_len m)"
    by (rule unat_ucast_64_32)
  then show ?thesis
    using unat_miter_len [OF assms(1,2), of m] assms(3) by (simp add: word_unat_eq_iff)
qed

definition frag_of :: "seg \<Rightarrow> frag" where
  "frag_of m = \<lparr>frag_page = seg_page m, frag_off = seg_off m, frag_size = ucast (seg_len m)\<rparr>"

definition frags_of :: "seg list \<Rightarrow> int \<rightharpoonup> frag" where
  "frags_of segs = (\<lambda>i. if 0 \<le> i \<and> nat i < length segs then Some (frag_of (segs ! nat i)) else None)"

fun fill_events :: "int \<Rightarrow> seg list \<Rightarrow> kevent list" where
  "fill_events n [] = []"
| "fill_events n (m # ms) =
     SkbFill n (seg_page m) (seg_off m) (ucast (seg_len m)) # fill_events (n + 1) ms"

lemma frags_of_Nil: "frags_of [] = Map.empty"
  by (auto simp: frags_of_def)

lemma frags_of_snoc: "(frags_of ms)(int (length ms) \<mapsto> frag_of m) = frags_of (ms @ [m])"
  by (auto simp: frags_of_def fun_eq_iff nth_append nat_less_iff)

lemma skb_loop_frags:
  assumes "skb_api_ok K" "unat buf_len < 2 ^ 32"
    "unat offset + seg_bytes ms = unat buf_len" "\<forall>m \<in> set ms. 0 < unat (seg_len m)"
    "skb_frags s = frags_of dn"
  shows "run_state (skb_from_sgvec_loop K buf_len ms offset (int (length dn)) (Some s)) h =
    (Inr (Some (s\<lparr>skb_len := skb_len s + of_nat (seg_bytes ms),
       skb_data_len := skb_data_len s + of_nat (seg_bytes ms), skb_frags := frags_of (dn @ ms)\<rparr>)),
     h @ fill_events (int (length dn)) ms)"
  using assms(3-5)
proof (induction ms arbitrary: offset s dn h)
  case Nil
  then show ?case by simp
next
  case (Cons m ms)
  let ?r = "seg_bytes (m # ms)"
  have len: "miter_len m buf_len offset = ucast (seg_len m)"
    using Cons.prems(1) assms(2) by (intro miter_len_exact [of _ ?r]) auto
  have fillK: "k_skb_fill_page_desc K s (int (length dn)) (seg_page m) (seg_off m) (ucast (seg_len m)) =
      s\<lparr>skb_frags := frags_of (dn @ [m])\<rparr>"
    using assms(1) Cons.prems(3) frags_of_snoc [of dn m]
    by (simp add: skb_api_ok_def frag_of_def)
  have guard: "ucast offset < buf_len"
    using miter_guard [OF Cons.prems(1)] Cons.prems(2) by simp
  have adv: "unat (offset + ucast (seg_len m)) + seg_bytes ms = unat buf_len"
    using miter_advance [OF Cons.prems(1) assms(2), of m] by (simp add: len)
  let ?s = "s\<lparr>skb_frags := frags_of (dn @ [m]), skb_len := skb_len s + ucast (seg_len m),
     skb_data_len := skb_data_len s + ucast (seg_len m)\<rparr>"
  have "run_state (skb_from_sgvec_loop K buf_len ms (offset + ucast (seg_len m)) (int (length dn) + 1)
      (Some ?s)) h' = (Inr (Some (s\<lparr>skb_len := skb_len s + of_nat ?r,
       skb_data_len := skb_data_len s + of_nat ?r, skb_frags := frags_of (dn @ m # ms)\<rparr>)),
     h' @ fill_events (int (length dn) + 1) ms)" for h'
    using Cons.IH [where s = ?s and dn = "dn @ [m]", OF adv] Cons.prems
    by (simp add: add.assoc add.commute)
  then show ?case
    using guard by (simp add: len fillK Let_def)
qed

theorem skb_from_sgvec_run:
  assumes "skb_api_ok K" "unat buf_len < 2 ^ 32" "k_segments K sgl nents = m # ms"
    "seg_bytes (m # ms) = unat buf_len" "\<forall>x \<in> set (m # ms). 0 < unat (seg_len x)"
  shows "run_state (skb_from_sgvec K sgl nents buf_len) h =
    (let h1 = h @ [MiterStart sgl nents]; len = ucast (seg_len m) in
     case k_build_skb K h1 (seg_addr m) len of
       None \<Rightarrow> (Inl (- ENOMEM), h1 @ [BuildSkb (seg_addr m) len False])
     | Some s \<Rightarrow>
         (Inr (Some (s\<lparr>skb_len := minus_shinfo K len + of_nat (seg_bytes ms),
            skb_data_len := of_nat (seg_bytes ms), skb_frags := frags_of ms\<rparr>)),
          h1 @ [BuildSkb (seg_addr m) len True, SkbPut (minus_shinfo K len)] @ fill_events 0 ms @
          [MiterStop]))"
proof -
  let ?len = "ucast (seg_len m) :: u32"
  have off: "unat (0 :: u32) + seg_bytes (m # ms) = unat buf_len"
    using assms(4) by simp
  have len: "miter_len m buf_len 0 = ?len"
    using assms(4) by (intro miter_len_exact [OF off assms(2)]) simp
  have guard: "0 < buf_len"
    using miter_guard [OF off] assms(5) by simp
  have adv: "unat ?len + seg_bytes ms = unat buf_len"
    using miter_advance [OF off assms(2), of m] by (simp add: len)
  have rest: "run_state (skb_from_sgvec_loop K buf_len ms ?len 0
       (Some (k_skb_put K s (minus_shinfo K ?len)))) h' =
     (Inr (Some (s\<lparr>skb_len := minus_shinfo K ?len + of_nat (seg_bytes ms),
            skb_data_len := of_nat (seg_bytes ms), skb_frags := frags_of ms\<rparr>)),
      h' @ fill_events 0 ms)"
    if "k_build_skb K h0 (seg_addr m) ?len = Some s" for s h0 h'
    using skb_loop_frags [OF assms(1,2) adv, where dn = "[]" and s = "k_skb_put K s (minus_shinfo K ?len)"]
      assms(1,5) that
    by (simp add: skb_api_ok_def frags_of_Nil)
  show ?thesis
    using guard assms(3)
    by (simp add: skb_from_sgvec_def len Let_def rest split: option.splits)
qed

lemma of_nat_seg_bytes: "(of_nat (seg_bytes ms) :: u64) = sum_list (map seg_len ms)"
  by (induction ms) simp_all

lemma page_chunks_Cons:
  "page_chunks n (m # ms) \<longleftrightarrow> 0 < unat (seg_len m) \<and> unat (seg_len m) \<le> PAGE_SIZE \<and>
     (ms \<noteq> [] \<longrightarrow> unat (seg_len m) = PAGE_SIZE) \<and> unat (seg_len m) \<le> n \<and>
     page_chunks (n - unat (seg_len m)) ms"
  by (auto simp: page_chunks_def)

lemma page_chunks_length: "page_chunks n segs \<Longrightarrow> length segs = (n + (PAGE_SIZE - 1)) div PAGE_SIZE"
proof (induction segs arbitrary: n)
  case Nil
  then show ?case by (simp add: page_chunks_def PAGE_SIZE_def)
next
  case (Cons m ms)
  have IH: "length ms = (n - unat (seg_len m) + (PAGE_SIZE - 1)) div PAGE_SIZE"
    by (rule Cons.IH) (use Cons.prems in \<open>simp add: page_chunks_Cons\<close>)
  show ?case
  proof (cases ms)
    case Nil
    have one: "(x + 4095) div 4096 = Suc 0" if "0 < x" "x \<le> 4096" for x :: nat
      using that by (intro div_nat_eqI) simp_all
    from Nil Cons.prems have "n = unat (seg_len m)" "0 < n" "n \<le> 4096"
      by (auto simp: page_chunks_Cons page_chunks_def [of _ "[]"] PAGE_SIZE_def)
    with Nil one show ?thesis by (simp add: PAGE_SIZE_def)
  next
    case (Cons m' ms')
    with Cons.prems have "unat (seg_len m) = 4096" "4096 \<le> n"
      by (auto simp: page_chunks_Cons PAGE_SIZE_def)
    then have "n + 4095 = (n - unat (seg_len m) + 4095) + 4096" by simp
    then have "(n + 4095) div 4096 = Suc ((n - unat (seg_len m) + 4095) div 4096)"
      by (simp only: div_add_self2)
    with IH show ?thesis by (simp add: PAGE_SIZE_def)
  qed
qed


lemma minus_shinfo_eq: "minus_shinfo K len = len - ucast (k_shinfo K)"
proof -
  have m: "x mod 18446744073709551616 mod 4294967296 = x mod 4294967296" for x :: int
    by (rule mod_mod_cancel) simp
  have "(x - y mod 18446744073709551616) mod 4294967296 = (x - y) mod 4294967296" for x y :: int
    by (metis m mod_diff_right_eq)
  then have "ucast (ucast a - b :: u64) = a - (ucast b :: u32)" for a :: u32 and b :: u64
    by transfer (simp add: take_bit_eq_mod m mod_diff_left_eq)
  then show ?thesis by (simp add: minus_shinfo_def)
qed

fun dma_lens :: "kevent list \<Rightarrow> u32 list" where
  "dma_lens [] = []"
| "dma_lens (e # es) = (case e of BioAddPage p l f r \<Rightarrow> l # dma_lens es | _ \<Rightarrow> dma_lens es)"

lemma dma_lens_append [simp]: "dma_lens (xs @ ys) = dma_lens xs @ dma_lens ys"
  by (induction xs) (auto split: kevent.splits)

fun clip :: "nat \<Rightarrow> seg list \<Rightarrow> nat list" where
  "clip r [] = []"
| "clip r (m # ms) =
     (if r = 0 then []
      else min (unat (seg_len m)) r # clip (r - min (unat (seg_len m)) r) ms)"

lemma clip_0 [simp]: "clip 0 ms = []"
  by (cases ms) simp_all

lemma sum_list_clip: "sum_list (clip r ms) = min r (seg_bytes ms)"
  by (induction r ms rule: clip.induct) (auto simp: min_def)

lemma bio_loop_lens:
  assumes "unat buf_len < 2 ^ 32" "unat offset + r = unat buf_len" "0 < unat offset"
  shows "\<exists>evs b'. run_state (blk_rq_map_from_sgl_loop K req buf_len ms offset b) h = (b', h @ evs) \<and>
     dma_lens evs = map of_nat (clip r ms)"
  using assms(2,3)
proof (induction ms arbitrary: offset r b h)
  case Nil
  then show ?case by simp
next
  case (Cons m ms)
  let ?l = "miter_len m buf_len offset"
  show ?case
  proof (cases "r = 0")
    case True
    with Cons.prems show ?thesis using miter_guard [OF Cons.prems(1)] by simp
  next
    case False
    obtain ret b1 where add: "k_bio_add_pc_page K h (rq_queue req) b (seg_page m) ?l (seg_off m) = (ret, b1)"
      by (cases "k_bio_add_pc_page K h (rq_queue req) b (seg_page m) ?l (seg_off m)")
    have adv: "unat (offset + ?l) + (r - min (unat (seg_len m)) r) = unat buf_len"
      by (rule miter_advance [OF Cons.prems(1) assms(1)])
    then have "0 < unat (offset + ?l)"
      using Cons.prems by linarith
    from Cons.IH [OF adv this] obtain evs b' where
      "run_state (blk_rq_map_from_sgl_loop K req buf_len ms (offset + ?l) b1)
         (h @ [BioAddPage (seg_page m) ?l (seg_off m) ret]) =
         (b', (h @ [BioAddPage (seg_page m) ?l (seg_off m) ret]) @ evs)"
      "dma_lens evs = map of_nat (clip (r - min (unat (seg_len m)) r) ms)"
      by blast
    moreover have len: "?l = of_nat (min (unat (seg_len m)) r)"
      unfolding unat_miter_len [OF Cons.prems(1) assms(1), symmetric] by simp
    moreover have "offset \<noteq> 0" using Cons.prems by auto
    ultimately show ?thesis
      using False miter_guard [OF Cons.prems(1)]
      by (intro exI [of _ "BioAddPage (seg_page m) ?l (seg_off m) ret # evs"] exI [of _ b'])
        (simp add: Let_def add [unfolded len])
  qed
qed


subsection \<open>What the device and the network see\<close>

text \<open>The indices of the fragment descriptors a run writes.\<close>

fun fill_indices :: "kevent list \<Rightarrow> int list" where
  "fill_indices [] = []"
| "fill_indices (e # es) = (case e of SkbFill i p l z \<Rightarrow> i # fill_indices es | _ \<Rightarrow> fill_indices es)"

lemma fill_indices_append [simp]: "fill_indices (xs @ ys) = fill_indices xs @ fill_indices ys"
  by (induction xs) (auto split: kevent.splits)

lemma fill_indices_fill_events: "fill_indices (fill_events n ms) = [n .. n + int (length ms) - 1]"
  by (induction n ms rule: fill_events.induct) (simp_all add: upto_rec1)

text \<open>The buffer a successful call returns.\<close>

lemma skb_from_sgvec_described:
  assumes "skb_api_ok K" and "page_chunks (unat n + unat (k_shinfo K)) (k_segments K sgl nents)"
    and "0 < unat n + unat (k_shinfo K)" and "unat n + unat (k_shinfo K) < 2 ^ 32"
    and "run_state (skb_from_sgvec K sgl nents (n + k_shinfo K)) h = (Inr pskb, h')"
  shows "\<exists>skb. pskb = Some skb \<and> skb_len skb = ucast n \<and>
    skb_data skb = seg_addr (hd (k_segments K sgl nents)) \<and>
    skb_frags skb = frags_of (tl (k_segments K sgl nents)) \<and>
    skb_data_len skb + ucast (seg_len (hd (k_segments K sgl nents))) = ucast (n + k_shinfo K)"
proof -
  have sum: "unat (n + k_shinfo K) = unat n + unat (k_shinfo K)"
    using assms(4) by (simp add: unat_word_ariths)
  obtain m ms where segs: "k_segments K sgl nents = m # ms"
    using assms(2,3) by (cases "k_segments K sgl nents") (auto simp: page_chunks_def)
  have bytes: "seg_bytes (m # ms) = unat (n + k_shinfo K)"
    and pos: "\<forall>x \<in> set (m # ms). 0 < unat (seg_len x)"
    using assms(2) by (auto simp: segs page_chunks_def sum)
  obtain s h1 where s: "k_build_skb K h1 (seg_addr m) (ucast (seg_len m)) = Some s"
    and pskb: "pskb = Some (s\<lparr>skb_len := minus_shinfo K (ucast (seg_len m)) + of_nat (seg_bytes ms),
       skb_data_len := of_nat (seg_bytes ms), skb_frags := frags_of ms\<rparr>)"
    using assms(4,5) skb_from_sgvec_run [OF assms(1) _ segs bytes pos, of h]
    by (auto simp: sum Let_def split: option.splits)
  have "(of_nat (seg_bytes (m # ms)) :: u32) = of_nat (unat (n + k_shinfo K))"
    by (simp only: bytes)
  then have total: "(ucast (seg_len m) + of_nat (seg_bytes ms) :: u32) = ucast (n + k_shinfo K)"
    by simp
  have "(ucast (n + k_shinfo K) :: u32) = ucast n + ucast (k_shinfo K)"
    by (rule ucast_add_64_32)
  with total have "minus_shinfo K (ucast (seg_len m)) + of_nat (seg_bytes ms) = ucast n"
    by (simp add: minus_shinfo_eq algebra_simps)
  then show ?thesis
    using s assms(1) total
    by (auto simp: pskb segs skb_api_ok_def add.commute)
qed


lemma demo_skb_from_sgvec:
  assumes "0 < unat n + 320" "unat n + 320 < 2 ^ 32"
  shows "\<exists>p evs. run_state (skb_from_sgvec demo_kernel (n + 320) nents (n + k_shinfo demo_kernel)) h =
      (Inr p, h @ evs) \<and>
    page_chunks (unat n + unat (k_shinfo demo_kernel)) (k_segments demo_kernel (n + 320) nents)"
proof -
  have info: "k_shinfo demo_kernel = 320" by (simp add: demo_kernel_def)
  have sum: "unat (n + 320) = unat n + 320"
    using assms(2) by (simp add: unat_word_ariths)
  have chunks: "page_chunks (unat n + 320) (k_segments demo_kernel (n + 320) nents)"
    using assms(2) demo_pages_ok [of "unat n + 320" 0] by (simp add: demo_kernel_def sum)
  then obtain m ms where segs: "k_segments demo_kernel (n + 320) nents = m # ms"
    using assms(1) by (cases "k_segments demo_kernel (n + 320) nents") (auto simp: page_chunks_def)
  have "seg_bytes (m # ms) = unat (n + 320)" "\<forall>x \<in> set (m # ms). 0 < unat (seg_len x)"
    using chunks by (auto simp: segs page_chunks_def sum)
  from skb_from_sgvec_run [OF demo_kernel_ok(1) _ segs this, of h] chunks show ?thesis
    using assms(2) by (auto simp: sum info Let_def demo_kernel_def split: option.splits)
qed


text \<open>
  C37. The fragment descriptors are written at 0, 1, 2, .. without gaps, one per page of
  the packet and the shared info beyond the first. The index is not checked against the 17
  descriptors a socket buffer has: a packet that needs more than 18 pages makes the driver write
  behind the array, and no shorter packet does.
\<close>

theorem skb_fragment_indices:
  assumes "skb_api_ok K" and "page_chunks (unat n + unat (k_shinfo K)) (k_segments K sgl nents)"
    and "0 < unat n + unat (k_shinfo K)" and "unat n + unat (k_shinfo K) < 2 ^ 32"
    and "run_state (skb_from_sgvec K sgl nents (n + k_shinfo K)) h = (Inr pskb, h @ evs)"
  shows "fill_indices evs =
      [0 .. int ((unat n + unat (k_shinfo K) + (PAGE_SIZE - 1)) div PAGE_SIZE) - 2] \<and>
    ((\<exists>i \<in> set (fill_indices evs). 17 \<le> i) \<longleftrightarrow> 18 * PAGE_SIZE < unat n + unat (k_shinfo K))"
proof -
  have sum: "unat (n + k_shinfo K) = unat n + unat (k_shinfo K)"
    using assms(4) by (simp add: unat_word_ariths)
  obtain m ms where segs: "k_segments K sgl nents = m # ms"
    using assms(2,3) by (cases "k_segments K sgl nents") (auto simp: page_chunks_def)
  have bytes: "seg_bytes (m # ms) = unat (n + k_shinfo K)"
    and pos: "\<forall>x \<in> set (m # ms). 0 < unat (seg_len x)"
    using assms(2) by (auto simp: segs page_chunks_def sum)
  have fills: "fill_indices evs = [0 .. int (length ms) - 1]"
    using assms(4,5) skb_from_sgvec_run [OF assms(1) _ segs bytes pos, of h]
    by (auto simp: sum Let_def fill_indices_fill_events split: option.splits)
  have pages: "(unat n + unat (k_shinfo K) + (PAGE_SIZE - 1)) div PAGE_SIZE = Suc (length ms)"
    using page_chunks_length [OF assms(2)] by (simp add: segs)
  have "18 * PAGE_SIZE < x \<longleftrightarrow> 19 \<le> (x + (PAGE_SIZE - 1)) div PAGE_SIZE" for x
    unfolding PAGE_SIZE_def by (subst less_eq_div_iff_mult_less_eq) auto
  from this [of "unat n + unat (k_shinfo K)"]
  have "18 * PAGE_SIZE < unat n + unat (k_shinfo K) \<longleftrightarrow> 18 \<le> length ms"
    unfolding pages by simp
  moreover have "(\<exists>i \<in> set [0 .. int (length ms) - 1]. 17 \<le> i) \<longleftrightarrow> 18 \<le> length ms"
    by (auto intro: bexI [of _ 17])
  ultimately show ?thesis
    unfolding fills pages by simp
qed


theorem skb_fragment_indices_witness:
  "\<exists>evs. snd (run_state (skb_from_sgvec demo_kernel (80000 + 320) 20 (80000 + k_shinfo demo_kernel)) []) =
     evs \<and> 18 \<in> set (fill_indices evs)"
proof -
  obtain p evs where run: "run_state (skb_from_sgvec demo_kernel (80000 + 320) 20
      (80000 + k_shinfo demo_kernel)) [] = (Inr p, [] @ evs)"
    and chunks: "page_chunks (unat (80000 :: u64) + unat (k_shinfo demo_kernel))
      (k_segments demo_kernel (80000 + 320) 20)"
    using demo_skb_from_sgvec [of 80000 20 "[]"] by auto
  have info: "k_shinfo demo_kernel = 320" by (simp add: demo_kernel_def)
  have "fill_indices evs = [0 .. 18]"
    using skb_fragment_indices [OF demo_kernel_ok(1) chunks _ _ run]
    by (simp add: info PAGE_SIZE_def)
  then show ?thesis using run by auto
qed

text \<open>What \<open>blk_rq_map_from_sgl\<close> asks the block layer to add to the bio.\<close>

lemma blk_rq_map_from_sgl_lens:
  assumes segs: "k_segments K sgl nents = m # ms" and "0 < unat (seg_len m)"
    and "0 < unat n" and "unat n < 2 ^ 32" and "k_bio_kmalloc K h nents = Some b"
  shows "\<exists>evs r. run_state (blk_rq_map_from_sgl K req sgl nents n) h = (r, h @ evs) \<and>
    dma_lens evs = minus_shinfo K (of_nat (min (unat (seg_len m)) (unat n))) #
      map of_nat (clip (unat n - min (unat (seg_len m)) (unat n)) ms)"
proof -
  have off: "unat (0 :: u32) + unat n = unat n" by simp
  let ?l = "miter_len m n 0" and ?h = "h @ [BioKmalloc nents True, MiterStart sgl nents]"
  have l: "?l = of_nat (min (unat (seg_len m)) (unat n))"
    unfolding unat_miter_len [OF off assms(4), symmetric] by simp
  obtain ret b1 where add: "k_bio_add_pc_page K ?h (rq_queue req) b (seg_page m)
      (minus_shinfo K ?l) (seg_off m) = (ret, b1)"
    by (rule prod.exhaust)
  have adv: "unat (0 + ?l) + (unat n - min (unat (seg_len m)) (unat n)) = unat n"
    by (rule miter_advance [OF off assms(4)])
  then have "0 < unat (0 + ?l)"
    using assms(2,3) by linarith
  from bio_loop_lens [OF assms(4) adv this, of K req ms b1
      "?h @ [BioAddPage (seg_page m) (minus_shinfo K ?l) (seg_off m) ret]"]
  obtain evs b' where rest: "run_state (blk_rq_map_from_sgl_loop K req n ms (0 + ?l) b1)
      (?h @ [BioAddPage (seg_page m) (minus_shinfo K ?l) (seg_off m) ret]) =
      (b', (?h @ [BioAddPage (seg_page m) (minus_shinfo K ?l) (seg_off m) ret]) @ evs)"
    "dma_lens evs = map of_nat (clip (unat n - min (unat (seg_len m)) (unat n)) ms)"
    by blast
  have "0 < n" using assms(3) by (simp add: word_less_nat_alt)
  then show ?thesis
    using rest add assms(5)
    by (simp add: blk_rq_map_from_sgl_def segs Let_def l split_beta)
qed

text \<open>
  The device is given less memory than the packet occupies. When the packet is at least
  as long as the shared info and the memory holds it, the ranges handed to the block layer add up
  to the packet's length minus the size of the shared info: the size is taken off the range of the
  first page although the length passed in does not include it.
\<close>

lemma blk_rq_map_from_sgl_lacks_shinfo:
  assumes "k_segments K sgl nents = m # ms" and "unat n \<le> seg_bytes (m # ms)"
    and "unat n < 2 ^ 32" and "0 < unat (k_shinfo K)"
    and "unat (k_shinfo K) \<le> min (unat (seg_len m)) (unat n)"
    and "k_bio_kmalloc K h nents = Some b"
    and "run_state (blk_rq_map_from_sgl K req sgl nents n) h = (r, h @ evs)"
  shows "sum_list (map unat (dma_lens evs)) + unat (k_shinfo K) = unat n"
proof -
  let ?k = "min (unat (seg_len m)) (unat n)"
  have lens: "dma_lens evs = minus_shinfo K (of_nat ?k) # map of_nat (clip (unat n - ?k) ms)"
    using blk_rq_map_from_sgl_lens [OF assms(1) _ _ assms(3,6), of req] assms(4,5,7) by auto
  have small: "x \<le> unat n" if "x \<in> set (clip (unat n - ?k) ms)" for x
  proof -
    have "x \<le> sum_list (clip (unat n - ?k) ms)" by (rule member_le_sum_list) (use that in simp_all)
    then show ?thesis by (simp add: sum_list_clip) linarith
  qed
  have "map (\<lambda>x. unat (of_nat x :: u32)) (clip (unat n - ?k) ms) = clip (unat n - ?k) ms"
  proof (rule map_idI)
    fix x
    assume "x \<in> set (clip (unat n - ?k) ms)"
    then have "x < 2 ^ 32" using small assms(3) by (meson le_less_trans)
    then show "unat (of_nat x :: u32) = x" by (simp add: unsigned_of_nat take_bit_nat_eq_self)
  qed
  then have rest: "sum_list (map unat (map of_nat (clip (unat n - ?k) ms) :: u32 list)) = unat n - ?k"
    using assms(2) by (simp add: sum_list_clip comp_def)
  have k32: "unat (of_nat ?k :: u32) = ?k"
    using assms(3) by (simp add: unsigned_of_nat take_bit_nat_eq_self)
  have s32: "unat (ucast (k_shinfo K) :: u32) = unat (k_shinfo K)"
    using assms(3,5) by (intro unat_ucast_64_32) simp
  have first: "unat (minus_shinfo K (of_nat ?k)) = ?k - unat (k_shinfo K)"
    unfolding minus_shinfo_eq
    using assms(5) by (subst unat_sub) (simp_all only: word_le_nat_alt k32 s32)
  have "sum_list (map unat (dma_lens evs)) = (?k - unat (k_shinfo K)) + (unat n - ?k)"
    unfolding lens list.map(2) sum_list.Cons first rest [unfolded list.map] by (rule refl)
  then show ?thesis
    using assms(5) by linarith
qed

end
