(* ===== verification/Nvpkt_Ioctl.thy ===== *)
theory Nvpkt_Ioctl
  imports Sg_Map
begin

section \<open>The character device of the packet generator\<close>

text \<open>
  The file operations of native-driver/nvpkt.c: \<open>nvpkt_ioctl\<close> and its three handlers, which send
  a packet read from the NVMe device (once or a number of times) or pass a command of the user to
  it. The result of a handler is its \<open>long\<close>, or a fault where it dereferences NULL or shifts by an
  undefined amount.
\<close>

subsection \<open>State and result\<close>

record miscdevice =
  misc_minor :: s32
  misc_name :: string

text \<open>\<open>struct nvpkt\<close>: the block device and its partition, the network device, the char device.\<close>

record nvpkt =
  np_disk :: ptr
  np_part :: ptr
  np_netdev :: ptr
  np_mdev :: miscdevice

type_synonym handler_result = "fault + s64"

subsection \<open>Sending one packet\<close>

text \<open>\<open>nblocks = npr.len >> ns->lba_shift; nblocks = nblocks ? nblocks : 1\<close>\<close>

definition txpkt_nblocks :: "u64 \<Rightarrow> s32 \<Rightarrow> u32 option" where
  "txpkt_nblocks len lba_shift =
     (case c_shr64 len lba_shift of None \<Rightarrow> None
      | Some b \<Rightarrow> let nblocks = ucast b in Some (if nblocks \<noteq> 0 then nblocks else 1))"

definition txpkt_command :: "kernel \<Rightarrow> nvme_ns \<Rightarrow> nvpkt_xmit \<Rightarrow> u32 \<Rightarrow> rw_command" where
  "txpkt_command K ns npr nblocks = zero_command
     \<lparr>rw_opcode := 2, \<comment> \<open>\<open>nvme_cmd_read\<close>\<close>
      rw_nsid := cpu_to_le32 (k_big_endian K) (head_ns_id (ns_head ns)),
      rw_slba := cpu_to_le64 (k_big_endian K) (xmit_slba npr),
      rw_length := ucast nblocks\<rparr>"

text \<open>From the allocation of the request to the label \<open>out\<close>.\<close>

definition txpkt_submit ::
  "kernel \<Rightarrow> nvme_ns \<Rightarrow> nvpkt_xmit \<Rightarrow> ptr \<Rightarrow> u32 \<Rightarrow> sk_buff \<Rightarrow> rw_command \<Rightarrow>
   (kevent, handler_result) io" where
  "txpkt_submit K ns npr sgl nents skb c = do {
     allocated \<leftarrow> ask (\<lambda>h. k_alloc_request K h (ns_queue ns) c)
       (\<lambda>r. AllocRequest c (case r of Inl e \<Rightarrow> Inl e | Inr q \<Rightarrow> Inr (rq_addr q)));
     (case allocated of
        Inl err \<Rightarrow> State_Monad.return (Inr err)
      | Inr req \<Rightarrow> do {
          (ret, req1) \<leftarrow> blk_rq_map_from_sgl K req sgl nents (xmit_len npr);
          if ret \<noteq> 0 then do {
            emit (FreeRequest (rq_addr req));
            State_Monad.return (Inr (int_to_long ret))
          }
          else (case rq_bio req1 of
              None \<Rightarrow> State_Monad.return (Inl NullDeref)
            | Some b \<Rightarrow> do {
                let req2 = req1\<lparr>rq_timeout := k_admin_timeout K,
                  rq_bio := Some (b\<lparr>bio_disk := ns_disk ns\<rparr>)\<rparr>;
                (flags, status) \<leftarrow> ask (\<lambda>h. k_execute_rq K h req2) (\<lambda>(f, s). ExecuteRq req2 f s);
                if flags AND NVME_REQ_CANCELLED \<noteq> 0 then do {
                  emit (FreeRequest (rq_addr req));
                  State_Monad.return (Inr (int_to_long (- EINTR)))
                }
                else do {
                  sent \<leftarrow> ask (\<lambda>h. k_queue_xmit K h skb) (\<lambda>r. QueueXmit skb r);
                  emit (FreeRequest (rq_addr req));
                  State_Monad.return (Inr (int_to_long sent))
                }
              })
        })
   }"

definition nvpkt_ioctl_txpkt_one ::
  "kernel \<Rightarrow> nvpkt \<Rightarrow> nvpkt_xmit \<Rightarrow> (kevent, handler_result) io" where
  "nvpkt_ioctl_txpkt_one K np npr = do {
     let ns = k_private_data K (np_disk np);
     let sgl_len = xmit_len npr + k_shinfo K;
     allocated \<leftarrow> ask (\<lambda>h. k_sgl_alloc K h sgl_len) (\<lambda>r. SglAlloc sgl_len r);
     (case allocated of
        None \<Rightarrow> State_Monad.return (Inr (int_to_long (- ENOMEM)))
      | Some (sgl, nents) \<Rightarrow> do {
          mapped \<leftarrow> skb_from_sgvec K sgl nents sgl_len;
          (case mapped of
             Inl err \<Rightarrow> State_Monad.return (Inr (int_to_long err))
           | Inr None \<Rightarrow> State_Monad.return (Inl NullDeref)
           | Inr (Some skb) \<Rightarrow>
               (case txpkt_nblocks (xmit_len npr) (ns_lba_shift ns) of
                  None \<Rightarrow> State_Monad.return (Inl BadShift)
                | Some nblocks \<Rightarrow>
                    txpkt_submit K ns npr sgl nents
                      (k_skb_set_mac_header K (skb\<lparr>skb_dev := np_netdev np\<rparr>) 0)
                      (txpkt_command K ns npr nblocks)))
        })
   }"

subsection \<open>The handlers\<close>

definition nvpkt_ioctl_txpkt :: "kernel \<Rightarrow> nvpkt \<Rightarrow> u64 \<Rightarrow> (kevent, handler_result) io" where
  "nvpkt_ioctl_txpkt K np arg = do {
     (left, npr) \<leftarrow> ask (\<lambda>h. k_copy_xmit K h arg) (\<lambda>(n, _). CopyFromUser arg 24 n);
     let ret = (ucast left :: s32);
     if ret \<noteq> 0 then State_Monad.return (Inr (int_to_long ret))
     else nvpkt_ioctl_txpkt_one K np npr
   }"

text \<open>The loop; its result is the counter, or the fault that stops the kernel thread.\<close>

function nvpkt_txpkt_count_loop ::
  "kernel \<Rightarrow> nvpkt \<Rightarrow> nvpkt_xmit \<Rightarrow> u64 \<Rightarrow> (kevent, fault + u64) io" where
  "nvpkt_txpkt_count_loop K np npr count =
     (if count < xmit_count npr then do {
        r \<leftarrow> nvpkt_ioctl_txpkt_one K np npr;
        (case r of
           Inl f \<Rightarrow> State_Monad.return (Inl f)
         | Inr _ \<Rightarrow> nvpkt_txpkt_count_loop K np npr (count + 1))
      }
      else State_Monad.return (Inr count))"
  by pat_completeness auto
termination
proof (relation "measure (\<lambda>(K, np, npr, count). unat (xmit_count npr) - unat count)", goal_cases)
  case (2 K np npr count)
  then show ?case by (simp add: unat_plus_one word_less_nat_alt)
qed simp

declare nvpkt_txpkt_count_loop.simps [simp del]

definition nvpkt_ioctl_txpkt_count :: "kernel \<Rightarrow> nvpkt \<Rightarrow> u64 \<Rightarrow> (kevent, handler_result) io" where
  "nvpkt_ioctl_txpkt_count K np arg = do {
     (left, npr) \<leftarrow> ask (\<lambda>h. k_copy_xmit K h arg) (\<lambda>(n, _). CopyFromUser arg 24 n);
     let ret = (ucast left :: s32);
     if ret \<noteq> 0 then State_Monad.return (Inr (int_to_long ret))
     else do {
       r \<leftarrow> nvpkt_txpkt_count_loop K np npr 0;
       State_Monad.return (case r of Inl f \<Rightarrow> Inl f | Inr count \<Rightarrow> Inr (count + 1))
     }
   }"

definition submit_io_command :: "kernel \<Rightarrow> nvme_ns \<Rightarrow> nvme_user_io \<Rightarrow> rw_command" where
  "submit_io_command K ns io = zero_command
     \<lparr>rw_opcode := io_opcode io,
      rw_nsid := cpu_to_le32 (k_big_endian K) (head_ns_id (ns_head ns)),
      rw_slba := cpu_to_le64 (k_big_endian K) (io_slba io),
      rw_length := cpu_to_le16 (k_big_endian K) (io_nblocks io),
      rw_control := ucast (cpu_to_le32 (k_big_endian K) (ucast (io_control io))),
      rw_dsmgmt := cpu_to_le32 (k_big_endian K) (io_dsmgmt io),
      rw_reftag := cpu_to_le32 (k_big_endian K) (io_reftag io),
      rw_apptag := cpu_to_le16 (k_big_endian K) (io_apptag io),
      rw_appmask := cpu_to_le16 (k_big_endian K) (io_appmask io)\<rparr>"

text \<open>From the allocation of the request to the end of the handler.\<close>

definition submit_io_request ::
  "kernel \<Rightarrow> nvme_ns \<Rightarrow> nvme_user_io \<Rightarrow> rw_command \<Rightarrow> u32 \<Rightarrow> (kevent, handler_result) io" where
  "submit_io_request K ns io c nbytes = do {
     allocated \<leftarrow> ask (\<lambda>h. k_alloc_request K h (ns_queue ns) c)
       (\<lambda>r. AllocRequest c (case r of Inl e \<Rightarrow> Inl e | Inr q \<Rightarrow> Inr (rq_addr q)));
     (case allocated of
        Inl err \<Rightarrow> State_Monad.return (Inr err)
      | Inr req \<Rightarrow> do {
          let req1 = req\<lparr>rq_timeout := k_admin_timeout K,
            rq_flags := rq_flags req OR NVME_REQ_USERCMD\<rparr>;
          (ret, mapped) \<leftarrow> ask (\<lambda>h. k_map_user K h req1 (io_addr io) nbytes)
            (\<lambda>(r, _). MapUser (rq_addr req) (io_addr io) nbytes r);
          if ret \<noteq> 0 then do {
            emit (FreeRequest (rq_addr req));
            State_Monad.return (Inr (int_to_long ret))
          }
          else (case mapped of
              None \<Rightarrow> State_Monad.return (Inl NullDeref)
            | Some b \<Rightarrow> do {
                let req2 = req1\<lparr>rq_bio := Some (b\<lparr>bio_disk := ns_disk ns\<rparr>)\<rparr>;
                (flags, status) \<leftarrow> ask (\<lambda>h. k_execute_rq K h req2) (\<lambda>(f, s). ExecuteRq req2 f s);
                emit UnmapUser;
                emit (FreeRequest (rq_addr req));
                State_Monad.return (Inr (int_to_long
                  (if flags AND NVME_REQ_CANCELLED \<noteq> 0 then - EINTR else ucast status)))
              })
        })
   }"

definition nvpkt_ioctl_submit_io :: "kernel \<Rightarrow> nvpkt \<Rightarrow> u64 \<Rightarrow> (kevent, handler_result) io" where
  "nvpkt_ioctl_submit_io K np arg = do {
     let ns = k_private_data K (np_disk np);
     (left, io) \<leftarrow> ask (\<lambda>h. k_copy_io K h arg) (\<lambda>(n, _). CopyFromUser arg 48 n);
     if left \<noteq> 0 then State_Monad.return (Inr (int_to_long (- EINVAL)))
     else if io_flags io \<noteq> 0 then State_Monad.return (Inr (int_to_long (- EINVAL)))
     else (case c_shl32 (ucast (io_nblocks io) + 1) (ns_lba_shift ns) of
         None \<Rightarrow> State_Monad.return (Inl BadShift)
       | Some nbytes \<Rightarrow> submit_io_request K ns io (submit_io_command K ns io) nbytes)
   }"

definition nvpkt_ioctl :: "kernel \<Rightarrow> nvpkt \<Rightarrow> u32 \<Rightarrow> u64 \<Rightarrow> (kevent, handler_result) io" where
  "nvpkt_ioctl K np cmd arg =
     (if cmd = NVPKT_IOCTL_TXPKT then nvpkt_ioctl_txpkt K np arg
      else if cmd = NVPKT_IOCTL_TXPKT_COUNT then nvpkt_ioctl_txpkt_count K np arg
      else if cmd = NVPKT_IOCTL_SUBMIT_IO then nvpkt_ioctl_submit_io K np arg
      else State_Monad.return (Inr (int_to_long (- EINVAL))))"

text \<open>The other file operations do nothing.\<close>

definition nvpkt_open :: "(kevent, s32) io" where
  "nvpkt_open = State_Monad.return 0"

definition nvpkt_release :: "(kevent, s32) io" where
  "nvpkt_release = State_Monad.return 0"

definition nvpkt_read :: "u64 \<Rightarrow> u64 \<Rightarrow> (kevent, s64) io" where
  "nvpkt_read buf count = State_Monad.return 0"

definition nvpkt_write :: "u64 \<Rightarrow> u64 \<Rightarrow> (kevent, s64) io" where
  "nvpkt_write buf count = State_Monad.return 0"

text \<open>
  A system call on the device, and how the table \<open>nvpkt_fops\<close> gives it to its handler. \<open>open\<close> and \<open>release\<close>
  return an \<open>int\<close>.
\<close>

datatype file_call =
    CallOpen
  | CallRelease
  | CallRead u64 u64
  | CallWrite u64 u64
  | CallIoctl u32 u64

fun nvpkt_fops :: "kernel \<Rightarrow> nvpkt \<Rightarrow> file_call \<Rightarrow> (kevent, handler_result) io" where
  "nvpkt_fops K np CallOpen = do { r \<leftarrow> nvpkt_open; State_Monad.return (Inr (int_to_long r)) }"
| "nvpkt_fops K np CallRelease = do { r \<leftarrow> nvpkt_release; State_Monad.return (Inr (int_to_long r)) }"
| "nvpkt_fops K np (CallRead buf count) = do { r \<leftarrow> nvpkt_read buf count; State_Monad.return (Inr r) }"
| "nvpkt_fops K np (CallWrite buf count) = do { r \<leftarrow> nvpkt_write buf count; State_Monad.return (Inr r) }"
| "nvpkt_fops K np (CallIoctl cmd arg) = nvpkt_ioctl K np cmd arg"

lemma nvpkt_fops_trivial [simp]:
  "nvpkt_fops K np CallOpen = State_Monad.return (Inr 0)"
  "nvpkt_fops K np CallRelease = State_Monad.return (Inr 0)"
  "nvpkt_fops K np (CallRead buf count) = State_Monad.return (Inr 0)"
  "nvpkt_fops K np (CallWrite buf count) = State_Monad.return (Inr 0)"
  by (simp_all add: nvpkt_open_def nvpkt_release_def nvpkt_read_def nvpkt_write_def int_to_long_def)

declare nvpkt_fops.simps(1-4) [simp del]

subsection \<open>The life of a request\<close>

text \<open>
  The abstract behaviour of a handler as the block layer sees it: a request is allocated, may get
  data mapped, is executed at most once, and is freed; the network only gets a packet while an
  executed, not cancelled request is still held.
\<close>

datatype req_phase = NoReq | Allocated ptr | Executed ptr bool

definition req_proto :: "req_phase \<Rightarrow> kevent \<Rightarrow> req_phase option" where
  "req_proto p e = (case p of
     NoReq \<Rightarrow> (case e of
         AllocRequest c r \<Rightarrow> Some (case r of Inl _ \<Rightarrow> NoReq | Inr q \<Rightarrow> Allocated q)
       | BioKmalloc _ _ \<Rightarrow> None | BioAddPage _ _ _ _ \<Rightarrow> None | AppendBio _ _ \<Rightarrow> None
       | MapUser _ _ _ _ \<Rightarrow> None | ExecuteRq _ _ _ \<Rightarrow> None | UnmapUser \<Rightarrow> None
       | QueueXmit _ _ \<Rightarrow> None | FreeRequest _ \<Rightarrow> None | _ \<Rightarrow> Some NoReq)
   | Allocated q \<Rightarrow> (case e of
         AllocRequest _ _ \<Rightarrow> None | UnmapUser \<Rightarrow> None | QueueXmit _ _ \<Rightarrow> None
       | AppendBio q' _ \<Rightarrow> if q' = q then Some p else None
       | MapUser q' _ _ _ \<Rightarrow> if q' = q then Some p else None
       | ExecuteRq r flags _ \<Rightarrow>
           if rq_addr r = q then Some (Executed q (flags AND NVME_REQ_CANCELLED \<noteq> 0)) else None
       | FreeRequest q' \<Rightarrow> if q' = q then Some NoReq else None
       | _ \<Rightarrow> Some p)
   | Executed q cancelled \<Rightarrow> (case e of
         UnmapUser \<Rightarrow> Some p
       | QueueXmit _ _ \<Rightarrow> if cancelled then None else Some p
       | FreeRequest q' \<Rightarrow> if q' = q then Some NoReq else None
       | _ \<Rightarrow> None))"

text \<open>A handler that returns leaves no request behind.\<close>

definition idle_after :: "fault + 'r \<Rightarrow> req_phase \<Rightarrow> bool" where
  "idle_after r p \<longleftrightarrow> (\<forall>x. r = Inr x \<longrightarrow> p = NoReq)"

lemma idle_after_simps [simp]: "idle_after (Inl f) p" "idle_after (Inr x) p \<longleftrightarrow> p = NoReq"
  by (auto simp: idle_after_def)

lemma skb_loop_obeys:
  "obeys req_proto NoReq (skb_from_sgvec_loop K buf_len ms offset n skb) (\<lambda>r p. p = NoReq)"
  by (induction ms arbitrary: offset n skb)
    (auto simp: obeys_simps Let_def req_proto_def intro!: obeys_bind split: option.splits)

lemma skb_from_sgvec_obeys:
  "obeys req_proto NoReq (skb_from_sgvec K sgl nents buf_len) (\<lambda>r p. p = NoReq)"
  unfolding skb_from_sgvec_def
  by (auto simp: obeys_simps req_proto_def split: sum.splits
      intro!: obeys_bind obeys_mono [OF skb_loop_obeys])

lemma bio_loop_obeys:
  "obeys req_proto (Allocated q) (blk_rq_map_from_sgl_loop K req buf_len ms offset b)
     (\<lambda>r p. p = Allocated q)"
  by (induction ms arbitrary: offset b)
    (auto simp: obeys_simps Let_def req_proto_def intro!: obeys_bind split: prod.splits)

lemma blk_rq_map_from_sgl_obeys:
  "obeys req_proto (Allocated (rq_addr req)) (blk_rq_map_from_sgl K req sgl nents n)
     (\<lambda>(ret, req') p. p = Allocated (rq_addr req) \<and> rq_addr req' = rq_addr req)"
  unfolding blk_rq_map_from_sgl_def
  by (auto simp: obeys_simps req_proto_def split: option.splits prod.splits
      intro!: obeys_bind obeys_mono [OF bio_loop_obeys])

lemma txpkt_submit_obeys:
  "obeys req_proto NoReq (txpkt_submit K ns npr sgl nents skb c) idle_after"
  unfolding txpkt_submit_def
  by (auto simp: obeys_simps req_proto_def Let_def split: option.splits prod.splits sum.splits
      intro!: obeys_bind obeys_mono [OF blk_rq_map_from_sgl_obeys])

lemma txpkt_one_obeys: "obeys req_proto NoReq (nvpkt_ioctl_txpkt_one K np npr) idle_after"
  unfolding nvpkt_ioctl_txpkt_one_def
  by (auto simp: obeys_simps req_proto_def Let_def split: option.splits prod.splits sum.splits
      intro!: obeys_bind obeys_mono [OF skb_from_sgvec_obeys] txpkt_submit_obeys)


subsection \<open>The interface between the dispatcher and its handlers\<close>

text \<open>Serving a list of calls one after the other; a fault ends the service.\<close>

fun serve :: "('i \<Rightarrow> (kevent, fault + 'r) io) \<Rightarrow> 'i list \<Rightarrow> (kevent, fault + 'r list) io" where
  "serve run [] = State_Monad.return (Inr [])"
| "serve run (i # is) = do {
     r \<leftarrow> run i;
     (case r of
        Inl f \<Rightarrow> State_Monad.return (Inl f)
      | Inr x \<Rightarrow> do {
          rs \<leftarrow> serve run is;
          State_Monad.return (case rs of Inl f \<Rightarrow> Inl f | Inr xs \<Rightarrow> Inr (x # xs))
        })
   }"

text \<open>The requests a trace allocates and frees, in order.\<close>

fun allocated_reqs :: "kevent list \<Rightarrow> ptr list" where
  "allocated_reqs [] = []"
| "allocated_reqs (e # es) =
     (case e of AllocRequest c (Inr q) \<Rightarrow> q # allocated_reqs es | _ \<Rightarrow> allocated_reqs es)"

fun freed_reqs :: "kevent list \<Rightarrow> ptr list" where
  "freed_reqs [] = []"
| "freed_reqs (e # es) = (case e of FreeRequest q \<Rightarrow> q # freed_reqs es | _ \<Rightarrow> freed_reqs es)"

fun held :: "req_phase \<Rightarrow> ptr list" where
  "held NoReq = []"
| "held (Allocated q) = [q]"
| "held (Executed q c) = [q]"

lemma req_proto_balance:
  "proto_run req_proto p evs = Some p' \<Longrightarrow> held p @ allocated_reqs evs = freed_reqs evs @ held p'"
proof (induction evs arbitrary: p)
  case (Cons e es)
  then obtain q where q: "req_proto p e = Some q" "proto_run req_proto q es = Some p'"
    by (auto split: option.splits)
  then have "held q @ allocated_reqs es = freed_reqs es @ held p'"
    using Cons.IH by blast
  with q(1) show ?case
    by (cases p; cases e) (auto simp: req_proto_def split: if_splits sum.splits)
qed simp

text \<open>
  What the protocol says about packets: each one is sent after an execution that was not
  cancelled, with the request still held.
\<close>

definition sent_after_read :: "kevent list \<Rightarrow> bool" where
  "sent_after_read evs \<longleftrightarrow> (\<forall>as skb r bs. evs = as @ QueueXmit skb r # bs \<longrightarrow>
     (\<exists>cs req flags status ds. as = cs @ ExecuteRq req flags status # ds \<and>
        flags AND NVME_REQ_CANCELLED = 0 \<and> (\<forall>q. FreeRequest q \<notin> set ds)))"

lemma req_proto_executed:
  "proto_run req_proto p as = Some (Executed q c) \<Longrightarrow>
     (\<exists>cs req flags status ds. as = cs @ ExecuteRq req flags status # ds \<and>
        (c \<longleftrightarrow> flags AND NVME_REQ_CANCELLED \<noteq> 0) \<and> (\<forall>q. FreeRequest q \<notin> set ds)) \<or>
     (p = Executed q c \<and> (\<forall>q. FreeRequest q \<notin> set as))"
proof (induction as arbitrary: q c rule: rev_induct)
  case (snoc e as)
  then obtain m where m: "proto_run req_proto p as = Some m" "req_proto m e = Some (Executed q c)"
    by (auto simp: proto_run_append split: option.splits)
  show ?case
  proof (cases m)
    case NoReq
    with m(2) show ?thesis by (cases e) (auto simp: req_proto_def split: sum.splits)
  next
    case (Allocated a)
    with m(2) obtain req flags status where "e = ExecuteRq req flags status"
      "c \<longleftrightarrow> flags AND NVME_REQ_CANCELLED \<noteq> 0"
      by (cases e) (auto simp: req_proto_def split: if_splits)
    then show ?thesis by fastforce
  next
    case (Executed a d)
    with m(2) have e: "m = Executed q c" "\<forall>q. e \<noteq> FreeRequest q"
      by (cases e; auto simp: req_proto_def split: if_splits)+
    from snoc.IH [OF m(1) [unfolded e(1)]] show ?thesis
    proof
      assume "\<exists>cs req flags status ds. as = cs @ ExecuteRq req flags status # ds \<and>
        (c \<longleftrightarrow> flags AND NVME_REQ_CANCELLED \<noteq> 0) \<and> (\<forall>q. FreeRequest q \<notin> set ds)"
      then obtain cs req flags status ds where "as = cs @ ExecuteRq req flags status # ds"
        "c \<longleftrightarrow> flags AND NVME_REQ_CANCELLED \<noteq> 0" "\<forall>q. FreeRequest q \<notin> set ds"
        by blast
      with e(2) show ?thesis
        by (intro disjI1 exI [of _ cs] exI [of _ req] exI [of _ flags] exI [of _ status]
            exI [of _ "ds @ [e]"]) auto
    next
      assume "p = Executed q c \<and> (\<forall>q. FreeRequest q \<notin> set as)"
      with e(2) show ?thesis by auto
    qed
  qed
qed simp

lemma req_proto_sent:
  assumes "proto_run req_proto NoReq evs = Some p"
  shows "sent_after_read evs"
  unfolding sent_after_read_def
proof (intro allI impI)
  fix as skb r bs
  assume "evs = as @ QueueXmit skb r # bs"
  with assms obtain m where m: "proto_run req_proto NoReq as = Some m"
    "req_proto m (QueueXmit skb r) \<noteq> None"
    by (auto simp: proto_run_append split: option.splits)
  then obtain q where "m = Executed q False"
    by (cases m) (auto simp: req_proto_def split: if_splits)
  with req_proto_executed [of NoReq as q False] m(1)
  show "\<exists>cs req flags status ds. as = cs @ ExecuteRq req flags status # ds \<and>
      flags AND NVME_REQ_CANCELLED = 0 \<and> (\<forall>q. FreeRequest q \<notin> set ds)"
    by auto
qed

locale request_handler =
  fixes run :: "'i \<Rightarrow> (kevent, fault + 'r) io"
  assumes idle: "obeys req_proto NoReq (run i) idle_after"
begin

lemma serve_idle: "obeys req_proto NoReq (serve run is) idle_after"
proof (induction "is")
  case Nil
  show ?case by (simp add: obeys_simps)
next
  case (Cons i "is")
  have "obeys req_proto NoReq (State_Monad.bind (serve run is)
      (\<lambda>rs. State_Monad.return (case rs of Inl f \<Rightarrow> Inl f | Inr xs \<Rightarrow> Inr (x # xs)))) idle_after" for x
    by (rule obeys_bindI [OF Cons.IH]) (auto simp: obeys_simps split: sum.splits)
  then show ?case
    by (auto simp: obeys_simps split: sum.splits intro!: obeys_bindI [OF idle])
qed

lemma serve_frees:
  assumes "run_state (serve run is) h = (Inr rs, h')"
  shows "\<exists>evs. h' = h @ evs \<and> allocated_reqs evs = freed_reqs evs \<and> sent_after_read evs"
proof -
  from serve_idle assms obtain evs p where "h' = h @ evs" "proto_run req_proto NoReq evs = Some p"
    "idle_after (Inr rs) p"
    by (rule obeysD)
  then show ?thesis
    using req_proto_balance [of NoReq evs p] req_proto_sent by auto
qed

lemma run_frees:
  assumes "run_state (run i) h = (Inr r, h')"
  shows "\<exists>evs. h' = h @ evs \<and> allocated_reqs evs = freed_reqs evs \<and> sent_after_read evs"
proof -
  have "run_state (serve run [i]) h = (Inr [r], h')"
    using assms by simp
  then show ?thesis by (rule serve_frees)
qed

end

lemma txpkt_obeys: "obeys req_proto NoReq (nvpkt_ioctl_txpkt K np arg) idle_after"
  unfolding nvpkt_ioctl_txpkt_def
  by (auto simp: obeys_simps req_proto_def Let_def split: prod.splits
      intro!: obeys_bind txpkt_one_obeys)

lemma txpkt_count_loop_obeys:
  "obeys req_proto NoReq (nvpkt_txpkt_count_loop K np npr count) idle_after"
proof (induction K np npr count rule: nvpkt_txpkt_count_loop.induct)
  case (1 K np npr count)
  then show ?case
    by (subst nvpkt_txpkt_count_loop.simps)
      (auto simp: obeys_simps split: sum.splits intro!: obeys_bindI [OF txpkt_one_obeys])
qed

lemma txpkt_count_obeys: "obeys req_proto NoReq (nvpkt_ioctl_txpkt_count K np arg) idle_after"
  unfolding nvpkt_ioctl_txpkt_count_def
  by (auto simp: obeys_simps req_proto_def Let_def split: prod.splits sum.splits
      intro!: obeys_bind obeys_mono [OF txpkt_count_loop_obeys])

lemma submit_io_obeys: "obeys req_proto NoReq (nvpkt_ioctl_submit_io K np arg) idle_after"
  unfolding nvpkt_ioctl_submit_io_def submit_io_request_def
  by (auto simp: obeys_simps req_proto_def Let_def split: prod.splits sum.splits option.splits
      intro!: obeys_bind)

lemma ioctl_obeys: "obeys req_proto NoReq (nvpkt_ioctl K np cmd arg) idle_after"
  unfolding nvpkt_ioctl_def
  by (auto simp: obeys_simps intro: txpkt_obeys txpkt_count_obeys submit_io_obeys)

interpretation txpkt: request_handler "nvpkt_ioctl_txpkt_one K np" for K np
  by unfold_locales (rule txpkt_one_obeys)

lemma fops_obeys: "obeys req_proto NoReq (nvpkt_fops K np call) idle_after"
  by (cases call) (simp_all add: ioctl_obeys obeys_return)

interpretation fops: request_handler "nvpkt_fops K np" for K np
  by unfold_locales (rule fops_obeys)

subsection \<open>What is sent and what is asked of the device\<close>

text \<open>Projections of a trace: packets sent, commands issued, scatterlists allocated.\<close>

definition sent_packets :: "kevent list \<Rightarrow> (sk_buff \<times> s32) list" where
  "sent_packets evs = concat (map (\<lambda>e. case e of QueueXmit skb r \<Rightarrow> [(skb, r)] | _ \<Rightarrow> []) evs)"

definition sgl_allocs :: "kevent list \<Rightarrow> u64 list" where
  "sgl_allocs evs = concat (map (\<lambda>e. case e of SglAlloc n r \<Rightarrow> [n] | _ \<Rightarrow> []) evs)"

abbreviation collect_sent :: "(sk_buff \<times> s32) list \<Rightarrow> kevent \<Rightarrow> (sk_buff \<times> s32) list option" where
  "collect_sent \<equiv> collect (\<lambda>e. case e of QueueXmit skb r \<Rightarrow> [(skb, r)] | _ \<Rightarrow> [])"

abbreviation collect_sgl :: "u64 list \<Rightarrow> kevent \<Rightarrow> u64 list option" where
  "collect_sgl \<equiv> collect (\<lambda>e. case e of SglAlloc n r \<Rightarrow> [n] | _ \<Rightarrow> [])"

lemma skb_loop_collects:
  assumes "\<And>e. (case e of BuildSkb _ _ _ \<Rightarrow> True | SkbPut _ \<Rightarrow> True | SkbFill _ _ _ _ \<Rightarrow> True
     | _ \<Rightarrow> False) \<Longrightarrow> f e = []"
  shows "obeys (collect f) xs (skb_from_sgvec_loop K buf_len ms offset n skb) (\<lambda>r ys. ys = xs)"
  using assms
  by (induction ms arbitrary: offset n skb)
    (auto simp: obeys_simps Let_def collect_def intro!: obeys_bind split: option.splits)

lemma skb_from_sgvec_collects:
  assumes "\<And>e. (case e of BuildSkb _ _ _ \<Rightarrow> True | SkbPut _ \<Rightarrow> True | SkbFill _ _ _ _ \<Rightarrow> True
     | MiterStart _ _ \<Rightarrow> True | MiterStop \<Rightarrow> True | _ \<Rightarrow> False) \<Longrightarrow> f e = []"
  shows "obeys (collect f) xs (skb_from_sgvec K sgl nents buf_len) (\<lambda>r ys. ys = xs)"
  unfolding skb_from_sgvec_def using assms
  by (auto simp: obeys_simps collect_def split: sum.splits kevent.splits
      intro!: obeys_bind obeys_mono [OF skb_loop_collects])

lemma bio_loop_collects:
  assumes "\<And>p l g r. f (BioAddPage p l g r) = []"
  shows "obeys (collect f) xs (blk_rq_map_from_sgl_loop K req buf_len ms offset b) (\<lambda>r ys. ys = xs)"
  using assms
  by (induction ms arbitrary: offset b)
    (auto simp: obeys_simps Let_def collect_def intro!: obeys_bind split: prod.splits)

lemma blk_rq_map_from_sgl_collects:
  assumes "\<And>e. (case e of BioKmalloc _ _ \<Rightarrow> True | BioAddPage _ _ _ _ \<Rightarrow> True | AppendBio _ _ \<Rightarrow> True
     | MiterStart _ _ \<Rightarrow> True | MiterStop \<Rightarrow> True | _ \<Rightarrow> False) \<Longrightarrow> f e = []"
  shows "obeys (collect f) xs (blk_rq_map_from_sgl K req sgl nents n) (\<lambda>r ys. ys = xs)"
  unfolding blk_rq_map_from_sgl_def using assms
  by (auto simp: obeys_simps collect_def split: option.splits prod.splits
      intro!: obeys_bind obeys_mono [OF bio_loop_collects])

lemma txpkt_submit_sends:
  "obeys collect_sent [] (txpkt_submit K ns npr sgl nents skb c)
     (\<lambda>r xs. xs = [] \<or> (\<exists>x. xs = [(skb, x)] \<and> r = Inr (int_to_long x)))"
  unfolding txpkt_submit_def
  by (auto simp: obeys_simps collect_def [of _ "_ :: (sk_buff \<times> s32) list"] Let_def
      split: option.splits prod.splits sum.splits kevent.splits
      intro!: obeys_bind obeys_mono [OF blk_rq_map_from_sgl_collects])


text \<open>The hypotheses under which a packet fits: memory for it and for the shared info.\<close>

definition packet_fits :: "kernel \<Rightarrow> nvpkt_xmit \<Rightarrow> bool" where
  "packet_fits K npr \<longleftrightarrow> 0 < unat (xmit_len npr) + unat (k_shinfo K) \<and>
     unat (xmit_len npr) + unat (k_shinfo K) < 2 ^ 32"

lemma skb_from_sgvec_result:
  assumes "skb_api_ok K" "sgl_alloc_ok K" "packet_fits K npr"
    "k_sgl_alloc K h0 (xmit_len npr + k_shinfo K) = Some (sgl, nents)"
    "run_state (skb_from_sgvec K sgl nents (xmit_len npr + k_shinfo K)) h = (r, h')"
  shows "case r of Inl err \<Rightarrow> err = - ENOMEM
    | Inr pskb \<Rightarrow> \<exists>skb. pskb = Some skb \<and> skb_len skb = ucast (xmit_len npr)"
proof -
  have sum: "unat (xmit_len npr + k_shinfo K) = unat (xmit_len npr) + unat (k_shinfo K)"
    using assms(3) by (simp add: packet_fits_def unat_word_ariths)
  have chunks: "page_chunks (unat (xmit_len npr) + unat (k_shinfo K)) (k_segments K sgl nents)"
    using assms(2,4) unfolding sgl_alloc_ok_def sum [symmetric] by blast
  have bounds: "0 < unat (xmit_len npr) + unat (k_shinfo K)"
    "unat (xmit_len npr) + unat (k_shinfo K) < 2 ^ 32"
    using assms(3) by (simp_all add: packet_fits_def)
  obtain m ms where segs: "k_segments K sgl nents = m # ms"
    using chunks bounds(1) by (cases "k_segments K sgl nents") (auto simp: page_chunks_def)
  have bytes: "seg_bytes (m # ms) = unat (xmit_len npr + k_shinfo K)"
    and pos: "\<forall>x \<in> set (m # ms). 0 < unat (seg_len x)"
    using chunks by (auto simp: segs page_chunks_def sum)
  show ?thesis
  proof (cases r)
    case (Inl err)
    then show ?thesis
      using bounds assms(5) skb_from_sgvec_run [OF assms(1) _ segs bytes pos, of h]
      by (auto simp: sum Let_def split: option.splits)
  next
    case (Inr pskb)
    with skb_from_sgvec_described [OF assms(1) chunks bounds, of h pskb h'] assms(5)
    show ?thesis by auto
  qed
qed

lemma txpkt_one_sends_obeys:
  assumes "skb_api_ok K" "sgl_alloc_ok K" "packet_fits K npr"
  shows "obeys collect_sent [] (nvpkt_ioctl_txpkt_one K np npr)
     (\<lambda>r xs. xs = [] \<or> (\<exists>skb x. xs = [(skb, x)] \<and> r = Inr (int_to_long x) \<and>
        skb_len skb = ucast (xmit_len npr) \<and> skb_dev skb = np_netdev np))"
proof -
  let ?n = "xmit_len npr + k_shinfo K"
  have mac: "\<exists>m. k_skb_set_mac_header K s 0 = s\<lparr>skb_mac_header := m\<rparr>" for s
    using assms(1) by (simp add: skb_api_ok_def)
  have skb: "obeys collect_sent [] (skb_from_sgvec K sgl nents ?n) (\<lambda>r ys. ys = [] \<and>
      (case r of Inl err \<Rightarrow> err = - ENOMEM
       | Inr pskb \<Rightarrow> \<exists>skb. pskb = Some skb \<and> skb_len skb = ucast (xmit_len npr)))"
    if "k_sgl_alloc K h ?n = Some (sgl, nents)" for h sgl nents
    by (rule obeys_result [OF skb_from_sgvec_collects])
      (use skb_from_sgvec_result [OF assms that] in \<open>auto split: kevent.splits\<close>)
  have submit: "obeys collect_sent [] (txpkt_submit K ns npr sgl nents
        (k_skb_set_mac_header K (skb\<lparr>skb_dev := np_netdev np\<rparr>) 0) c)
     (\<lambda>r xs. xs = [] \<or> (\<exists>skb x. xs = [(skb, x)] \<and> r = Inr (int_to_long x) \<and>
        skb_len skb = ucast (xmit_len npr) \<and> skb_dev skb = np_netdev np))"
    if "skb_len skb = ucast (xmit_len npr)" for ns sgl nents skb c
    using mac [of "skb\<lparr>skb_dev := np_netdev np\<rparr>"] that
    by (auto intro!: obeys_mono [OF txpkt_submit_sends])
  show ?thesis
    unfolding nvpkt_ioctl_txpkt_one_def
    by (auto simp: obeys_simps collect_def [of _ "[] :: (sk_buff \<times> s32) list"] Let_def
        split: option.splits prod.splits sum.splits
        intro!: obeys_bind obeys_mono [OF skb] submit)
qed

text \<open>
  C8. A send call puts at most one packet on the network; the packet has the length the
  caller asked for and goes to the configured network device, and what the network layer returns
  for it is the result of the call. In particular the status the device reports for the read is
  not looked at.
\<close>

theorem txpkt_one_sends_packet:
  assumes "skb_api_ok K" and "sgl_alloc_ok K" and "packet_fits K npr"
    and "run_state (nvpkt_ioctl_txpkt_one K np npr) h = (r, h @ evs)"
  shows "sent_packets evs = [] \<or> (\<exists>skb x. sent_packets evs = [(skb, x)] \<and> r = Inr (int_to_long x) \<and>
    skb_len skb = ucast (xmit_len npr) \<and> skb_dev skb = np_netdev np)"
  using obeys_collectD [OF txpkt_one_sends_obeys [OF assms(1-3)] assms(4)]
  by (simp add: sent_packets_def)

definition demo_nvpkt :: nvpkt where
  "demo_nvpkt = \<lparr>np_disk = 0x30, np_part = 0x60, np_netdev = 0x70,
     np_mdev = \<lparr>misc_minor = 255, misc_name = ''nvpkt''\<rparr>\<rparr>"

definition demo_xmit :: nvpkt_xmit where
  "demo_xmit = \<lparr>xmit_len = 1024, xmit_slba = 1, xmit_count = 2\<rparr>"

lemma demo_packet_fits: "packet_fits demo_kernel demo_xmit"
  by (simp add: packet_fits_def demo_kernel_def demo_xmit_def)

lemma demo_one_page:
  "demo_pages 1344 0 = [\<lparr>seg_page = 0, seg_off = 0, seg_len = 1344, seg_addr = 0\<rparr>]"
  by (simp add: demo_pages.simps PAGE_SIZE_def)

text \<open>The trace of one packet on the demonstration kernel.\<close>

lemma demo_txpkt_one:
  "\<exists>evs skb. run_state (nvpkt_ioctl_txpkt_one demo_kernel demo_nvpkt demo_xmit) h = (Inr 0, h @ evs) \<and>
     sent_packets evs = [(skb, 0)]"
  by (simp add: nvpkt_ioctl_txpkt_one_def skb_from_sgvec_def txpkt_submit_def blk_rq_map_from_sgl_def
      demo_kernel_def demo_nvpkt_def demo_xmit_def demo_ns_def demo_one_page miter_len_def
      minus_shinfo_def txpkt_nblocks_def txpkt_command_def c_shr64_def sent_packets_def Let_def
      int_to_long_def)

theorem txpkt_one_sends_packet_witness:
  "\<exists>evs skb. run_state (nvpkt_ioctl_txpkt_one demo_kernel demo_nvpkt demo_xmit) [] = (Inr 0, evs) \<and>
     sent_packets evs = [(skb, 0)] \<and> skb_len skb = 1024 \<and> skb_dev skb = 0x70"
proof -
  obtain evs skb where run: "run_state (nvpkt_ioctl_txpkt_one demo_kernel demo_nvpkt demo_xmit) [] =
      (Inr 0, [] @ evs)" "sent_packets evs = [(skb, 0)]"
    using demo_txpkt_one by blast
  from txpkt_one_sends_packet [OF demo_kernel_ok(1,2) demo_packet_fits run(1)] run
  show ?thesis by (auto simp: demo_xmit_def demo_nvpkt_def)
qed

text \<open>The ranges given to the device and its executions, for the sum of the ranges.\<close>

fun dma_item :: "kevent \<Rightarrow> u32 option list" where
  "dma_item (BioAddPage p l g r) = [Some l]"
| "dma_item (ExecuteRq q f s) = [None]"
| "dma_item e = []"

fun is_execute :: "kevent \<Rightarrow> bool" where
  "is_execute (ExecuteRq q f s) = True"
| "is_execute e = False"

definition executed :: "kevent list \<Rightarrow> bool" where
  "executed evs \<longleftrightarrow> (\<exists>e \<in> set evs. is_execute e)"

lemma executed_simps [simp]: "executed [] \<longleftrightarrow> False" "executed (e # es) \<longleftrightarrow> is_execute e \<or> executed es"
  by (simp_all add: executed_def)

lemma dma_item_Cons:
  "dma_lens (e # es) = map the (filter (\<lambda>x. x \<noteq> None) (dma_item e)) @ dma_lens es"
  "None \<in> set (dma_item e) \<longleftrightarrow> is_execute e"
  by (cases e; simp)+

lemma dma_items_executed: "executed evs \<longleftrightarrow> None \<in> set (concat (map dma_item evs))"
  by (induction evs) (simp_all add: dma_item_Cons)

lemma dma_items_lens:
  "dma_lens evs = map the (filter (\<lambda>x. x \<noteq> None) (concat (map dma_item evs)))"
  by (induction evs) (simp_all add: dma_item_Cons del: dma_lens.simps(2))

lemma dma_items_not_executed:
  assumes "\<not> executed evs"
  shows "concat (map dma_item evs) = map Some (dma_lens evs)"
proof -
  have "None \<notin> set (concat (map dma_item evs))"
    using assms dma_items_executed by simp
  then have "filter (\<lambda>x. x \<noteq> None) (concat (map dma_item evs)) = concat (map dma_item evs)"
    by (metis (mono_tags, lifting) filter_True)
  moreover from \<open>None \<notin> _\<close> have "map (\<lambda>x. Some (the x)) (concat (map dma_item evs)) = concat (map dma_item evs)"
    by (intro map_idI) (metis option.exhaust_sel)
  ultimately show ?thesis by (simp add: dma_items_lens comp_def)
qed

lemma bio_loop_not_executed:
  "obeys (watch (\<lambda>e. \<not> is_execute e)) () (blk_rq_map_from_sgl_loop K req n ms offset b) (\<lambda>_ _. True)"
  by (induction ms arbitrary: offset b)
    (auto simp: obeys_simps Let_def watch_def intro!: obeys_bind split: prod.splits)

lemma blk_rq_map_from_sgl_not_executed:
  "obeys (watch (\<lambda>e. \<not> is_execute e)) () (blk_rq_map_from_sgl K req sgl nents n) (\<lambda>_ _. True)"
  unfolding blk_rq_map_from_sgl_def
  by (auto simp: obeys_simps watch_def split: option.splits prod.splits
      intro!: obeys_bind obeys_bindI [OF bio_loop_not_executed])

lemma obeys_collectI:
  assumes "\<And>h. \<exists>evs r. run_state m h = (r, h @ evs) \<and> Q r (xs @ concat (map f evs))"
  shows "obeys (collect f) xs m Q"
  unfolding obeys_def
proof
  fix h
  from assms [of h] obtain evs r where "run_state m h = (r, h @ evs)" "Q r (xs @ concat (map f evs))"
    by blast
  then show "\<exists>evs q. snd (run_state m h) = h @ evs \<and> proto_run (collect f) xs evs = Some q \<and>
      Q (fst (run_state m h)) q"
    by (auto simp: proto_run_collect)
qed

lemma blk_rq_map_from_sgl_dma:
  assumes "page_chunks (unat n + unat (k_shinfo K)) (k_segments K sgl nents)"
    and "0 < unat (k_shinfo K)" "unat (k_shinfo K) \<le> PAGE_SIZE" "unat (k_shinfo K) \<le> unat n"
    and "unat n < 2 ^ 32"
  shows "obeys (collect dma_item) [] (blk_rq_map_from_sgl K req sgl nents n)
     (\<lambda>(ret, req') xs. \<exists>ls. xs = map Some ls \<and>
        (ret = 0 \<longrightarrow> sum_list (map unat ls) + unat (k_shinfo K) = unat n))"
proof (rule obeys_collectI)
  fix h
  obtain m ms where segs: "k_segments K sgl nents = m # ms"
    using assms(1,2) by (cases "k_segments K sgl nents") (auto simp: page_chunks_def)
  have bytes: "unat n \<le> seg_bytes (m # ms)"
    using assms(1) by (simp add: segs page_chunks_def)
  have first: "unat (k_shinfo K) \<le> min (unat (seg_len m)) (unat n)"
  proof (cases "ms = []")
    case True
    then show ?thesis using assms(1,4) by (simp add: segs page_chunks_def)
  next
    case False
    then show ?thesis using assms(1,3,4) by (simp add: segs page_chunks_Cons)
  qed
  obtain r h' where run: "run_state (blk_rq_map_from_sgl K req sgl nents n) h = (r, h')"
    by (rule prod.exhaust)
  obtain evs where evs: "h' = h @ evs"
    using obeys_extends [OF blk_rq_map_from_sgl_not_executed run] by blast
  have "\<not> executed evs"
    using obeys_watchD [OF blk_rq_map_from_sgl_not_executed run [unfolded evs]]
    by (auto simp: executed_def)
  note items = dma_items_not_executed [OF this]
  show "\<exists>evs r. run_state (blk_rq_map_from_sgl K req sgl nents n) h = (r, h @ evs) \<and>
    (case r of (ret, req') \<Rightarrow> \<lambda>xs. \<exists>ls. xs = map Some ls \<and>
        (ret = 0 \<longrightarrow> sum_list (map unat ls) + unat (k_shinfo K) = unat n)) ([] @ concat (map dma_item evs))"
  proof (cases "k_bio_kmalloc K h nents")
    case None
    with run show ?thesis by (auto simp: blk_rq_map_from_sgl_def)
  next
    case (Some b)
    from blk_rq_map_from_sgl_lacks_shinfo [OF segs bytes assms(5,2) first Some run [unfolded evs]]
    show ?thesis using run evs items by auto
  qed
qed


definition cmd_item :: "kevent \<Rightarrow> rw_command list" where
  "cmd_item e = (case e of AllocRequest c (Inr q) \<Rightarrow> [c] | _ \<Rightarrow> [])"

lemma txpkt_submit_commands:
  "obeys (collect cmd_item) [] (txpkt_submit K ns npr sgl nents skb c) (\<lambda>r xs. xs = [] \<or> xs = [c])"
  unfolding txpkt_submit_def
  by (auto simp: obeys_simps collect_def [of _ "_ :: rw_command list"] cmd_item_def Let_def
      split: option.splits prod.splits sum.splits kevent.splits
      intro!: obeys_bind obeys_mono [OF blk_rq_map_from_sgl_collects])

lemma txpkt_one_commands:
  "obeys (collect cmd_item) [] (nvpkt_ioctl_txpkt_one K np npr) (\<lambda>r xs. length xs \<le> 1 \<and>
     (\<forall>c \<in> set xs. \<exists>nblocks. txpkt_nblocks (xmit_len npr) (ns_lba_shift (k_private_data K (np_disk np))) = Some nblocks \<and>
        c = txpkt_command K (k_private_data K (np_disk np)) npr nblocks))"
  unfolding nvpkt_ioctl_txpkt_one_def
  by (auto simp: obeys_simps collect_def [of _ "[] :: rw_command list"] cmd_item_def Let_def
      split: option.splits prod.splits sum.splits kevent.splits
      intro!: obeys_bind obeys_mono [OF skb_from_sgvec_collects] obeys_mono [OF txpkt_submit_commands])

lemma txpkt_submit_dma:
  assumes "page_chunks (unat (xmit_len npr) + unat (k_shinfo K)) (k_segments K sgl nents)"
    and "0 < unat (k_shinfo K)" "unat (k_shinfo K) \<le> PAGE_SIZE" "unat (k_shinfo K) \<le> unat (xmit_len npr)"
    and "unat (xmit_len npr) < 2 ^ 32"
  shows "obeys (collect dma_item) [] (txpkt_submit K ns npr sgl nents skb c)
     (\<lambda>r xs. None \<in> set xs \<longrightarrow> (\<exists>ls. xs = map Some ls @ [None] \<and>
        sum_list (map unat ls) + unat (k_shinfo K) = unat (xmit_len npr)))"
  unfolding txpkt_submit_def
  by (auto simp: obeys_simps collect_def [of _ "_ :: u32 option list"] Let_def
      split: option.splits prod.splits sum.splits
      intro!: obeys_bind obeys_bindI [OF blk_rq_map_from_sgl_dma [OF assms]])

lemma txpkt_one_dma:
  assumes "sgl_alloc_ok K" "packet_fits K npr"
    and "0 < unat (k_shinfo K)" "unat (k_shinfo K) \<le> PAGE_SIZE" "unat (k_shinfo K) \<le> unat (xmit_len npr)"
  shows "obeys (collect dma_item) [] (nvpkt_ioctl_txpkt_one K np npr)
     (\<lambda>r xs. None \<in> set xs \<longrightarrow> (\<exists>ls. xs = map Some ls @ [None] \<and>
        sum_list (map unat ls) + unat (k_shinfo K) = unat (xmit_len npr)))"
proof -
  have sum: "unat (xmit_len npr + k_shinfo K) = unat (xmit_len npr) + unat (k_shinfo K)"
    and small: "unat (xmit_len npr) < 2 ^ 32"
    using assms(2) by (simp_all add: packet_fits_def unat_word_ariths)
  have chunks: "page_chunks (unat (xmit_len npr) + unat (k_shinfo K)) (k_segments K sgl nents)"
    if "k_sgl_alloc K h (xmit_len npr + k_shinfo K) = Some (sgl, nents)" for h sgl nents
    using assms(1) that unfolding sgl_alloc_ok_def sum [symmetric] by blast
  have skb: "obeys (collect dma_item) [] (skb_from_sgvec K sgl nents n) (\<lambda>r ys. ys = [])" for sgl nents n
    by (rule skb_from_sgvec_collects) (auto split: kevent.splits)
  show ?thesis
    unfolding nvpkt_ioctl_txpkt_one_def
    by (auto simp: obeys_simps collect_def [of _ "[] :: u32 option list"] Let_def
        split: option.splits prod.splits sum.splits
        intro!: obeys_bind obeys_mono [OF skb]
          txpkt_submit_dma [OF chunks assms(3-5) small])
qed


lemma allocated_before_executed:
  "proto_run req_proto NoReq evs = Some p \<Longrightarrow> allocated_reqs evs = [] \<Longrightarrow> \<not> executed evs"
proof (induction evs)
  case (Cons e es)
  from Cons.prems obtain q where q: "req_proto NoReq e = Some q" "proto_run req_proto q es = Some p"
    by (auto split: option.splits)
  have "q = NoReq \<and> allocated_reqs es = [] \<and> \<not> is_execute e"
    using q(1) Cons.prems(2) by (cases e) (auto simp: req_proto_def split: sum.splits)
  with q(2) Cons.IH show ?case by simp
qed simp

definition commands :: "kevent list \<Rightarrow> rw_command list" where
  "commands evs = concat (map cmd_item evs)"

lemma length_commands: "length (commands evs) = length (allocated_reqs evs)"
  by (induction evs) (auto simp: commands_def cmd_item_def split: kevent.splits sum.splits)

lemma txpkt_nblocks_covers:
  assumes "txpkt_nblocks len s = Some nblocks" and "unat len div 2 ^ nat (sint s) < 2 ^ 16"
  shows "unat len < (unat (ucast nblocks :: u16) + 1) * 2 ^ nat (sint s)"
proof -
  let ?k = "2 ^ nat (sint s) :: nat" and ?b = "drop_bit (nat (sint s)) len"
  have b: "unat ?b = unat len div ?k" by (rule unat_drop_bit_div)
  have u32: "unat (ucast ?b :: u32) = unat len div ?k"
    using assms(2) by (subst unat_ucast_64_32) (simp_all add: b)
  have n: "nblocks = (if (ucast ?b :: u32) \<noteq> 0 then ucast ?b else 1)"
    using assms(1) by (auto simp: txpkt_nblocks_def c_shr64_def Let_def split: if_splits)
  have "unat len div ?k \<le> unat (ucast nblocks :: u16)"
  proof (cases "(ucast ?b :: u32) = 0")
    case True
    then have "unat len div ?k = 0" using u32 by simp
    then show ?thesis by simp
  next
    case False
    then have "nblocks = ucast ?b" by (simp add: n)
    then have "unat nblocks = unat len div ?k" using u32 by simp
    then show ?thesis
      using assms(2) by (simp add: unsigned_ucast_eq take_bit_nat_eq_self)
  qed
  then have "(unat len div ?k + 1) * ?k \<le> (unat (ucast nblocks :: u16) + 1) * ?k"
    by (intro mult_right_mono) simp_all
  moreover have "unat len < (unat len div ?k + 1) * ?k"
    using dividend_less_div_times [of ?k "unat len"] by (simp add: algebra_simps)
  ultimately show ?thesis by linarith
qed


lemma demo_txpkt_one_executed:
  "\<exists>evs. run_state (nvpkt_ioctl_txpkt_one demo_kernel demo_nvpkt demo_xmit) h = (Inr 0, h @ evs) \<and>
     executed evs"
  by (simp add: nvpkt_ioctl_txpkt_one_def skb_from_sgvec_def txpkt_submit_def blk_rq_map_from_sgl_def
      demo_kernel_def demo_nvpkt_def demo_xmit_def demo_ns_def demo_one_page miter_len_def
      minus_shinfo_def txpkt_nblocks_def txpkt_command_def c_shr64_def Let_def
      int_to_long_def)


subsection \<open>The handlers\<close>

lemma skb_from_sgvec_sgl: "obeys collect_sgl xs (skb_from_sgvec K sgl nents n) (\<lambda>r ys. ys = xs)"
  by (rule skb_from_sgvec_collects) (auto split: kevent.splits)

lemma txpkt_submit_sgl: "obeys collect_sgl xs (txpkt_submit K ns npr sgl nents skb c) (\<lambda>r ys. ys = xs)"
  unfolding txpkt_submit_def
  by (auto simp: obeys_simps collect_def [of _ "_ :: u64 list"] Let_def
      split: option.splits prod.splits sum.splits kevent.splits
      intro!: obeys_bind obeys_mono [OF blk_rq_map_from_sgl_collects])

lemma txpkt_one_sgl:
  "obeys collect_sgl xs (nvpkt_ioctl_txpkt_one K np npr) (\<lambda>r ys. ys = xs @ [xmit_len npr + k_shinfo K])"
  unfolding nvpkt_ioctl_txpkt_one_def
  by (auto simp: obeys_simps collect_def [of _ "xs :: u64 list"] Let_def
      split: option.splits prod.splits sum.splits
      intro!: obeys_bind obeys_mono [OF skb_from_sgvec_sgl] obeys_mono [OF txpkt_submit_sgl])

lemma txpkt_count_loop_sgl:
  "count \<le> xmit_count npr \<Longrightarrow> obeys collect_sgl xs (nvpkt_txpkt_count_loop K np npr count)
     (\<lambda>r ys. \<forall>c. r = Inr c \<longrightarrow> c = xmit_count npr \<and>
        ys = xs @ replicate (unat (xmit_count npr) - unat count) (xmit_len npr + k_shinfo K))"
proof (induction K np npr count arbitrary: xs rule: nvpkt_txpkt_count_loop.induct)
  case (1 K np npr count)
  show ?case
  proof (cases "count < xmit_count npr")
    case True
    have step: "unat (count + 1) = unat count + 1" by (rule unat_plus_one [OF True])
    have le: "count + 1 \<le> xmit_count npr"
      using True step by (simp add: word_less_nat_alt word_le_nat_alt)
    have rep: "replicate (unat (xmit_count npr) - unat count) x =
        x # replicate (unat (xmit_count npr) - unat (count + 1)) x" for x :: u64
      using True step by (simp add: word_less_nat_alt Suc_diff_Suc flip: replicate_Suc)
    show ?thesis
      using True
      by (subst nvpkt_txpkt_count_loop.simps)
        (auto simp: obeys_simps rep split: sum.splits
          intro!: obeys_bindI [OF txpkt_one_sgl] obeys_mono [OF 1(1) [OF True le]])
  next
    case False
    with 1(2) show ?thesis
      by (subst nvpkt_txpkt_count_loop.simps) (auto simp: obeys_simps)
  qed
qed

lemma txpkt_count_result:
  assumes "k_copy_xmit K h arg = (0, npr)"
    and "run_state (nvpkt_ioctl_txpkt_count K np arg) h = (Inr r, h @ evs)"
  shows "r = xmit_count npr + 1 \<and>
    sgl_allocs evs = replicate (unat (xmit_count npr)) (xmit_len npr + k_shinfo K)"
proof -
  let ?e = "CopyFromUser arg 24 0"
  obtain c where loop: "run_state (nvpkt_txpkt_count_loop K np npr 0) (h @ [?e]) = (Inr c, h @ evs)"
    and r: "r = c + 1"
    using assms by (auto simp: nvpkt_ioctl_txpkt_count_def Let_def split: prod.splits sum.splits)
  have sgl: "obeys collect_sgl [] (nvpkt_txpkt_count_loop K np npr 0)
     (\<lambda>r ys. \<forall>c. r = Inr c \<longrightarrow> c = xmit_count npr \<and>
        ys = replicate (unat (xmit_count npr)) (xmit_len npr + k_shinfo K))"
    using txpkt_count_loop_sgl [of 0 npr "[]" K np] by simp
  obtain evs' where evs': "h @ evs = (h @ [?e]) @ evs'"
    using obeys_extends [OF sgl loop] by blast
  from obeys_collectD [OF sgl loop [unfolded evs']] show ?thesis
    using evs' by (simp add: r sgl_allocs_def)
qed

text \<open>
  A counted send that returns has tried exactly as many packets as the caller asked
  for, each with memory of its own that is never freed, whatever became of them; it returns one
  more than that number, so never the 0 that tells the caller of success, except after wrapping.
\<close>

theorem txpkt_count_returns_count_plus_one:
  assumes "k_copy_xmit K h arg = (0, npr)"
    and "run_state (nvpkt_ioctl_txpkt_count K np arg) h = (Inr r, h @ evs)"
  shows "r = xmit_count npr + 1 \<and>
    sgl_allocs evs = replicate (unat (xmit_count npr)) (xmit_len npr + k_shinfo K)"
  using assms by (rule txpkt_count_result)


lemma demo_count_loop:
  "\<exists>evs. run_state (nvpkt_txpkt_count_loop demo_kernel demo_nvpkt demo_xmit 0) h = (Inr 2, h @ evs)"
proof -
  obtain e1 where 1: "run_state (nvpkt_ioctl_txpkt_one demo_kernel demo_nvpkt demo_xmit) h = (Inr 0, h @ e1)"
    using demo_txpkt_one by blast
  obtain e2 where 2: "run_state (nvpkt_ioctl_txpkt_one demo_kernel demo_nvpkt demo_xmit) (h @ e1) =
      (Inr 0, (h @ e1) @ e2)"
    using demo_txpkt_one by blast
  have "xmit_count demo_xmit = 2" by (simp add: demo_xmit_def)
  with 1 2 show ?thesis
    by (simp add: nvpkt_txpkt_count_loop.simps [of _ _ _ 0] nvpkt_txpkt_count_loop.simps [of _ _ _ 1]
        nvpkt_txpkt_count_loop.simps [of _ _ _ 2])
qed

theorem txpkt_count_returns_count_plus_one_witness:
  "\<exists>evs. run_state (nvpkt_ioctl_txpkt_count demo_kernel demo_nvpkt 0x1000) [] = (Inr 3, evs) \<and>
     sgl_allocs evs = [1344, 1344]"
proof -
  have copy: "k_copy_xmit demo_kernel [] 0x1000 = (0, demo_xmit)"
    by (simp add: demo_kernel_def demo_xmit_def)
  obtain evs where "run_state (nvpkt_txpkt_count_loop demo_kernel demo_nvpkt demo_xmit 0)
      [CopyFromUser 0x1000 24 0] = (Inr 2, [CopyFromUser 0x1000 24 0] @ evs)"
    using demo_count_loop by blast
  then have run: "run_state (nvpkt_ioctl_txpkt_count demo_kernel demo_nvpkt 0x1000) [] =
      (Inr 3, [] @ CopyFromUser 0x1000 24 0 # evs)"
    using copy by (simp add: nvpkt_ioctl_txpkt_count_def Let_def)
  have "unat (xmit_count demo_xmit) = 2" "xmit_len demo_xmit + k_shinfo demo_kernel = 1344"
    by (simp_all add: demo_xmit_def demo_kernel_def)
  with txpkt_count_returns_count_plus_one [OF copy run] run show ?thesis
    by (simp add: numeral_2_eq_2)
qed

text \<open>
  A send call whose argument cannot be copied from user space does nothing, and returns
  the number of bytes not copied: a positive number, not an error code.
\<close>

theorem txpkt_failed_copy:
  assumes "k_copy_xmit K h arg = (left, npr)" and "0 < left" and "left \<le> 24"
  shows "run_state (nvpkt_ioctl_txpkt K np arg) h = (Inr left, h @ [CopyFromUser arg 24 left]) \<and>
    run_state (nvpkt_ioctl_txpkt_count K np arg) h = (Inr left, h @ [CopyFromUser arg 24 left]) \<and>
    0 < sint left"
proof -
  have u: "0 < uint left" "uint left \<le> 24"
    using assms(2,3) by (simp_all add: word_less_def word_le_def)
  have s64: "sint left = uint left"
    unfolding sint_uint by (rule signed_take_bit_int_eq_self) (use u in simp_all)
  have u32: "uint (ucast left :: s32) = uint left"
    unfolding unsigned_ucast_eq by (rule take_bit_int_eq_self) (use u in simp_all)
  have "sint (ucast left :: s32) = uint left"
    unfolding sint_uint u32 by (rule signed_take_bit_int_eq_self) (use u in simp_all)
  then have "sint (int_to_long (ucast left)) = signed_take_bit 63 (uint left)"
    unfolding int_to_long_def by (simp add: signed_scast_eq)
  then have "sint (int_to_long (ucast left)) = sint left"
    using u by (simp add: s64 signed_take_bit_int_eq_self)
  then have long: "int_to_long (ucast left) = left"
    by (rule signed_word_eqI)
  have "(ucast left :: s32) \<noteq> 0"
    using u32 u(1) by auto
  then show ?thesis
    using assms(1) long s64 u(1)
    by (simp add: nvpkt_ioctl_txpkt_def nvpkt_ioctl_txpkt_count_def Let_def)
qed

theorem txpkt_failed_copy_witness:
  "fst (run_state (nvpkt_ioctl_txpkt (demo_kernel\<lparr>k_copy_xmit := \<lambda>h a. (24, demo_xmit)\<rparr>) demo_nvpkt 0) [])
     = Inr 24"
  by (subst txpkt_failed_copy [THEN conjunct1]) simp_all

text \<open>
  The numbers of the three operations differ, each reaches its own handler, and any
  other number is refused with -EINVAL without a call into the kernel.
\<close>

theorem nvpkt_ioctl_dispatch:
  "nvpkt_ioctl K np NVPKT_IOCTL_TXPKT arg = nvpkt_ioctl_txpkt K np arg \<and>
   nvpkt_ioctl K np NVPKT_IOCTL_TXPKT_COUNT arg = nvpkt_ioctl_txpkt_count K np arg \<and>
   nvpkt_ioctl K np NVPKT_IOCTL_SUBMIT_IO arg = nvpkt_ioctl_submit_io K np arg \<and>
   (cmd = NVPKT_IOCTL_TXPKT \<or> cmd = NVPKT_IOCTL_TXPKT_COUNT \<or> cmd = NVPKT_IOCTL_SUBMIT_IO \<or>
    run_state (nvpkt_ioctl K np cmd arg) h = (Inr (- 22), h))"
  by (simp add: nvpkt_ioctl_def NVPKT_IOCTL_TXPKT_def NVPKT_IOCTL_TXPKT_COUNT_def
      NVPKT_IOCTL_SUBMIT_IO_def IOW_def int_to_long_def)

text \<open>What a passed-through command may look like in the trace.\<close>

fun submit_io_event_ok :: "kernel \<Rightarrow> nvme_ns \<Rightarrow> nvme_user_io \<Rightarrow> u32 \<Rightarrow> kevent \<Rightarrow> bool" where
  "submit_io_event_ok K ns io nbytes (AllocRequest c r) = (c = submit_io_command K ns io)"
| "submit_io_event_ok K ns io nbytes (MapUser q a n r) = (a = io_addr io \<and> n = nbytes)"
| "submit_io_event_ok K ns io nbytes (ExecuteRq rq f s) =
     (rq_timeout rq = k_admin_timeout K \<and> rq_flags rq AND NVME_REQ_USERCMD \<noteq> 0 \<and>
      (\<exists>b. rq_bio rq = Some b \<and> bio_disk b = ns_disk ns))"
| "submit_io_event_ok K ns io nbytes (QueueXmit skb r) = False"
| "submit_io_event_ok K ns io nbytes e = True"

lemma usercmd_nonzero [simp]: "NVME_REQ_USERCMD \<noteq> 0"
  by (simp add: NVME_REQ_USERCMD_def)

lemma usercmd_set: "(x OR NVME_REQ_USERCMD) AND NVME_REQ_USERCMD \<noteq> 0"
  by (simp add: bit.conj_disj_distrib2)

lemma submit_io_request_watch:
  "obeys (watch (submit_io_event_ok K ns io nbytes)) ()
     (submit_io_request K ns io (submit_io_command K ns io) nbytes) (\<lambda>_ _. True)"
  unfolding submit_io_request_def
  by (auto simp: obeys_simps watch_def Let_def usercmd_set split: option.splits prod.splits sum.splits
      intro!: obeys_bind)

lemma submit_io_length:
  assumes "0 \<le> sint s" and "sint s \<le> 15"
  shows "\<exists>n. c_shl32 (ucast (k :: u16) + 1) s = Some n \<and> unat n = (unat k + 1) * 2 ^ nat (sint s)"
proof -
  have k: "unat k < 2 ^ LENGTH(16)" by (rule unsigned_less)
  have k32: "unat (ucast k + 1 :: u32) = unat k + 1"
    using k by (simp add: unat_word_ariths unsigned_ucast_eq take_bit_nat_eq_self)
  have "(unat k + 1) * 2 ^ nat (sint s) \<le> 2 ^ 16 * 2 ^ 15"
    using k assms by (intro mult_mono power_increasing) simp_all
  then have "(unat k + 1) * 2 ^ nat (sint s) < 2 ^ 32" by simp
  then have "unat (push_bit (nat (sint s)) (ucast k + 1 :: u32)) = (unat k + 1) * 2 ^ nat (sint s)"
    unfolding unsigned_push_bit_eq k32 unfolding push_bit_eq_mult by (simp add: take_bit_nat_eq_self)
  moreover have "c_shl32 (ucast k + 1) s = Some (push_bit (nat (sint s)) (ucast k + 1))"
    unfolding c_shl32_def using assms by simp
  ultimately show ?thesis by metis
qed

lemma submit_io_run:
  assumes "k_copy_io K h arg = (0, io)" and "io_flags io = 0"
    and "ns = k_private_data K (np_disk np)"
    and "c_shl32 (ucast (io_nblocks io) + 1) (ns_lba_shift ns) = Some nbytes"
  shows "run_state (nvpkt_ioctl_submit_io K np arg) h =
    run_state (submit_io_request K ns io (submit_io_command K ns io) nbytes) (h @ [CopyFromUser arg 48 0])"
  using assms by (simp add: nvpkt_ioctl_submit_io_def Let_def)

lemma submit_io_events:
  assumes "\<not> k_big_endian K" and "k_copy_io K h arg = (0, io)" and "io_flags io = 0"
    and "ns = k_private_data K (np_disk np)"
    and "0 \<le> sint (ns_lba_shift ns)" and "sint (ns_lba_shift ns) \<le> 15"
    and "run_state (nvpkt_ioctl_submit_io K np arg) h = (r, h @ evs)" and "e \<in> set evs"
  shows "case e of
      AllocRequest c _ \<Rightarrow> c = \<lparr>rw_opcode = io_opcode io, rw_flags = 0, rw_command_id = 0,
        rw_nsid = head_ns_id (ns_head ns), rw_metadata = 0, rw_slba = io_slba io,
        rw_length = io_nblocks io, rw_control = io_control io, rw_dsmgmt = io_dsmgmt io,
        rw_reftag = io_reftag io, rw_apptag = io_apptag io, rw_appmask = io_appmask io\<rparr>
    | MapUser _ a n _ \<Rightarrow> a = io_addr io \<and>
        unat n = (unat (io_nblocks io) + 1) * 2 ^ nat (sint (ns_lba_shift ns))
    | ExecuteRq rq _ _ \<Rightarrow> rq_timeout rq = k_admin_timeout K \<and> rq_flags rq AND NVME_REQ_USERCMD \<noteq> 0 \<and>
        (\<exists>b. rq_bio rq = Some b \<and> bio_disk b = ns_disk ns)
    | QueueXmit _ _ \<Rightarrow> False
    | _ \<Rightarrow> True"
proof -
  let ?e = "CopyFromUser arg 48 0"
  obtain nbytes where n: "c_shl32 (ucast (io_nblocks io) + 1) (ns_lba_shift ns) = Some nbytes"
    "unat nbytes = (unat (io_nblocks io) + 1) * 2 ^ nat (sint (ns_lba_shift ns))"
    using submit_io_length [OF assms(5,6)] by blast
  note run = assms(7) [unfolded submit_io_run [OF assms(2-4) n(1)]]
  obtain evs' where evs': "h @ evs = (h @ [?e]) @ evs'"
    using obeys_extends [OF submit_io_request_watch run] by blast
  have "e = ?e \<or> submit_io_event_ok K ns io nbytes e"
    using obeys_watchD [OF submit_io_request_watch run [unfolded evs']] evs' assms(8) by auto
  moreover have "(ucast (ucast (io_control io) :: u32) :: u16) = io_control io"
    by (rule bit_word_eqI) (simp add: bit_simps)
  ultimately show ?thesis
    using assms(1) n(2)
    by (cases e) (auto simp: submit_io_command_def zero_command_def cpu_to_le16_def cpu_to_le32_def
        cpu_to_le64_def)
qed


definition demo_io :: nvme_user_io where
  "demo_io = snd (k_copy_io demo_kernel [] 0)"

lemma demo_submit_io:
  "\<exists>evs. run_state (nvpkt_ioctl_submit_io demo_kernel demo_nvpkt 0x1000) [] =
     (Inr 0, [] @ CopyFromUser 0x1000 48 0 #
        AllocRequest (submit_io_command demo_kernel demo_ns demo_io) (Inr 0x40) # MapUser 0x40 0x1000 1024 0 # evs)"
  by (simp add: nvpkt_ioctl_submit_io_def submit_io_request_def demo_io_def demo_kernel_def demo_nvpkt_def
      demo_ns_def c_shl32_def Let_def int_to_long_def)


text \<open>
  On a big-endian machine the control field of a passed-through command is lost: the
  16-bit field is converted as if it had 32 bits, and what is stored is always 0.
\<close>

theorem submit_io_control_big_endian:
  assumes "k_big_endian K"
  shows "rw_control (submit_io_command K ns io) = 0"
proof -
  have ff00: "(0xff00 :: u32) = push_bit 8 (mask 8)"
    by (simp add: mask_eq_exp_minus_1)
  have "(ucast (bswap32 (ucast (x :: u16))) :: u16) = 0" for x
    unfolding bswap32_def ff00
    by (rule bit_word_eqI) (auto simp: bit_simps dest: bit_imp_le_length)
  with assms show ?thesis
    by (simp add: submit_io_command_def cpu_to_le32_def)
qed

theorem submit_io_control_big_endian_witness:
  "rw_control (submit_io_command (demo_kernel\<lparr>k_big_endian := True\<rparr>) demo_ns (demo_io\<lparr>io_control := 0x4000\<rparr>)) = 0"
  by (rule submit_io_control_big_endian) simp

text \<open>The outcomes of the executions in a trace.\<close>

fun execution_item :: "kevent \<Rightarrow> (u8 \<times> u16) list" where
  "execution_item (ExecuteRq q f s) = [(f, s)]"
| "execution_item e = []"

definition executions :: "kevent list \<Rightarrow> (u8 \<times> u16) list" where
  "executions evs = concat (map execution_item evs)"

definition execution_result :: "u8 \<Rightarrow> u16 \<Rightarrow> s64" where
  "execution_result f s = int_to_long (if f AND NVME_REQ_CANCELLED \<noteq> 0 then - EINTR else ucast s)"

lemma submit_io_executions:
  "obeys (collect execution_item) [] (nvpkt_ioctl_submit_io K np arg)
     (\<lambda>r xs. xs = [] \<or> (\<exists>f s. xs = [(f, s)] \<and> r = Inr (execution_result f s)))"
  unfolding nvpkt_ioctl_submit_io_def submit_io_request_def execution_result_def [symmetric]
  by (auto simp: obeys_simps collect_def [of _ "_ :: (u8 \<times> u16) list"] Let_def
      split: option.splits prod.splits sum.splits intro!: obeys_bind)

text \<open>
  C38. Passing a command through executes at most one request, and when it does its outcome is
  the result of the call: -EINTR when the request was cancelled, the NVMe status otherwise, 0 on
  success and positive on a device error.
\<close>

theorem submit_io_returns_status:
  assumes "run_state (nvpkt_ioctl_submit_io K np arg) h = (r, h @ evs)"
  shows "executions evs = [] \<or> (\<exists>flags status. executions evs = [(flags, status)] \<and>
    r = Inr (if flags AND NVME_REQ_CANCELLED \<noteq> 0 then - 4 else ucast status))"
proof -
  have "int_to_long (ucast s) = ucast s" for s :: u16
  proof (rule bit_word_eqI)
    fix n assume "n < LENGTH(64)"
    show "bit (int_to_long (ucast s)) n = bit (ucast s :: s64) n"
      using bit_imp_le_length [of s n] bit_imp_le_length [of s "min 31 n"]
      by (auto simp: int_to_long_def bit_simps min_def split: if_splits)
  qed
  moreover have "int_to_long (- EINTR) = - 4" by (simp add: int_to_long_def)
  ultimately show ?thesis
    using obeys_collectD [OF submit_io_executions assms]
    unfolding executions_def [symmetric] execution_result_def by (auto split: if_splits)
qed

definition failing_kernel :: kernel where
  "failing_kernel = demo_kernel\<lparr>k_execute_rq := \<lambda>h r. (0, 0x4281)\<rparr>"

theorem submit_io_returns_status_witness:
  "\<exists>evs. run_state (nvpkt_ioctl_submit_io failing_kernel demo_nvpkt 0x1000) [] = (Inr 0x4281, evs) \<and>
     executions evs = [(0, 0x4281)]"
proof -
  obtain r evs where run: "run_state (nvpkt_ioctl_submit_io failing_kernel demo_nvpkt 0x1000) [] = (r, [] @ evs)"
    and one: "executions evs = [(0, 0x4281)]"
    by (simp add: nvpkt_ioctl_submit_io_def submit_io_request_def failing_kernel_def demo_kernel_def
        demo_nvpkt_def demo_ns_def c_shl32_def Let_def executions_def)
  from submit_io_returns_status [OF run] one run show ?thesis by (auto simp: NVME_REQ_CANCELLED_def)
qed

text \<open>
  A command that cannot be copied from user space, or that asks for any flag, is refused
  with -EINVAL before the block layer is called.
\<close>

theorem submit_io_rejects:
  assumes "k_copy_io K h arg = (left, io)" and "left \<noteq> 0 \<or> io_flags io \<noteq> 0"
  shows "run_state (nvpkt_ioctl_submit_io K np arg) h = (Inr (- 22), h @ [CopyFromUser arg 48 left])"
  using assms by (auto simp: nvpkt_ioctl_submit_io_def Let_def int_to_long_def)

theorem submit_io_rejects_witness:
  "run_state (nvpkt_ioctl_submit_io (demo_kernel\<lparr>k_copy_io := \<lambda>h a. (0, demo_io\<lparr>io_flags := 1\<rparr>)\<rparr>)
     demo_nvpkt 0) [] = (Inr (- 22), [] @ [CopyFromUser 0 48 0])"
  by (rule submit_io_rejects [where io = "demo_io\<lparr>io_flags := 1\<rparr>"]) simp_all

text \<open>
  C1. After any sequence of calls of the device's users that all return, every request that
  was allocated has been freed, exactly once and in the order of allocation, and every packet was
  sent after its read had been executed, not cancelled, and while its request was still held.
\<close>

theorem ioctl_calls_free_requests:
  assumes "run_state (serve (nvpkt_fops K np) calls) h = (Inr rs, h')"
  shows "\<exists>evs. h' = h @ evs \<and> allocated_reqs evs = freed_reqs evs \<and> sent_after_read evs"
  using assms by (rule fops.serve_frees)

lemma demo_ioctl_txpkt:
  "\<exists>evs. run_state (nvpkt_ioctl demo_kernel demo_nvpkt NVPKT_IOCTL_TXPKT 0x1000) h = (Inr 0, h @ evs) \<and>
     allocated_reqs evs = [0x40]"
proof -
  have "\<exists>evs. run_state (nvpkt_ioctl_txpkt_one demo_kernel demo_nvpkt demo_xmit) h = (Inr 0, h @ evs) \<and>
     allocated_reqs evs = [0x40]" for h
    by (simp add: nvpkt_ioctl_txpkt_one_def skb_from_sgvec_def txpkt_submit_def blk_rq_map_from_sgl_def
      demo_kernel_def demo_nvpkt_def demo_xmit_def demo_ns_def demo_one_page miter_len_def
      minus_shinfo_def txpkt_nblocks_def txpkt_command_def c_shr64_def Let_def int_to_long_def)
  from this [of "h @ [CopyFromUser 0x1000 24 0]"] obtain evs where
    "run_state (nvpkt_ioctl_txpkt_one demo_kernel demo_nvpkt demo_xmit) (h @ [CopyFromUser 0x1000 24 0]) =
      (Inr 0, h @ CopyFromUser 0x1000 24 0 # evs)" "allocated_reqs evs = [0x40]"
    by auto
  moreover have "k_copy_xmit demo_kernel h 0x1000 = (0, demo_xmit)" for h
    by (simp add: demo_kernel_def demo_xmit_def)
  ultimately show ?thesis
    by (simp add: nvpkt_ioctl_def nvpkt_ioctl_txpkt_def Let_def)
qed

theorem ioctl_calls_free_requests_witness:
  "\<exists>evs. run_state (serve (nvpkt_fops demo_kernel demo_nvpkt)
       [CallOpen, CallIoctl NVPKT_IOCTL_TXPKT 0x1000, CallRelease]) [] = (Inr [0, 0, 0], evs) \<and> allocated_reqs evs = [0x40] \<and>
     freed_reqs evs = [0x40] \<and> sent_after_read evs"
proof -
  obtain evs where evs: "run_state (nvpkt_ioctl demo_kernel demo_nvpkt NVPKT_IOCTL_TXPKT 0x1000) [] =
      (Inr 0, [] @ evs)" "allocated_reqs evs = [0x40]"
    using demo_ioctl_txpkt by blast
  then have run: "run_state (serve (nvpkt_fops demo_kernel demo_nvpkt)
      [CallOpen, CallIoctl NVPKT_IOCTL_TXPKT 0x1000, CallRelease]) [] = (Inr [0, 0, 0], evs)"
    by simp
  from ioctl_calls_free_requests [OF this] run evs(2) show ?thesis by auto
qed

end
