(* ===== verification/Packet_Delivery.thy ===== *)
theory Packet_Delivery
  imports Nvpkt_Ioctl
begin

section \<open>Delivery of a packet\<close>

text \<open>
  What the send path does when nothing goes wrong: on a kernel whose calls all succeed, one send call
  puts exactly the requested packet on the network. Together with the error paths this determines
  when a packet is sent.
\<close>

text \<open>A kernel none of whose calls fails, and whose executions are not cancelled.\<close>

definition kernel_serves :: "kernel \<Rightarrow> bool" where
  "kernel_serves K \<longleftrightarrow> (\<forall>h n. k_sgl_alloc K h n \<noteq> None) \<and> (\<forall>h a l. k_build_skb K h a l \<noteq> None) \<and>
     (\<forall>h q c. \<exists>req. k_alloc_request K h q c = Inr req) \<and> (\<forall>h n. k_bio_kmalloc K h n \<noteq> None) \<and>
     (\<forall>h req b. \<exists>b'. k_append_bio K h req b = (0, Some b')) \<and>
     (\<forall>h req. fst (k_execute_rq K h req) AND NVME_REQ_CANCELLED = 0)"

lemma skb_loop_served:
  assumes "kernel_serves K"
  shows "\<exists>s. fst (run_state (skb_from_sgvec_loop K buf_len ms offset n skb) h) = Inr s"
proof (induction ms arbitrary: offset n skb h)
  case (Cons m ms)
  have build: "k_build_skb K h a l \<noteq> None" for h a l
    using assms by (simp add: kernel_serves_def)
  show ?case by (auto simp: Let_def Cons build split: option.splits)
qed simp

lemma skb_from_sgvec_served:
  assumes "kernel_serves K" and "run_state (skb_from_sgvec K sgl nents buf_len) h = (r, h')"
  shows "\<exists>s. r = Inr s"
proof -
  obtain s where "fst (run_state (skb_from_sgvec_loop K buf_len (k_segments K sgl nents) 0 0 None)
      (h @ [MiterStart sgl nents])) = Inr s"
    using skb_loop_served [OF assms(1)] by blast
  then show ?thesis
    using assms(2) by (auto simp: skb_from_sgvec_def split: prod.splits)
qed

lemma blk_rq_map_from_sgl_served:
  assumes "kernel_serves K"
  shows "obeys collect_sent [] (blk_rq_map_from_sgl K req sgl nents n)
    (\<lambda>(ret, req') ys. ys = [] \<and> ret = 0 \<and> (\<exists>b. rq_bio req' = Some b))"
proof -
  have loop: "obeys collect_sent [] (blk_rq_map_from_sgl_loop K req n ms 0 b) (\<lambda>_ ys. ys = [])" for ms b
    by (rule bio_loop_collects) simp
  have "k_bio_kmalloc K h nents \<noteq> None" "\<exists>b'. k_append_bio K h r b = (0, Some b')" for h r b
    using assms unfolding kernel_serves_def by blast+
  then show ?thesis
    unfolding blk_rq_map_from_sgl_def
    by (auto simp: obeys_simps collect_def [of _ "[] :: (sk_buff \<times> s32) list"] split: option.splits prod.splits
        intro!: obeys_bind obeys_mono [OF loop]) (metis Pair_inject option.inject)+
qed

lemma txpkt_submit_served:
  assumes "kernel_serves K"
  shows "obeys collect_sent [] (txpkt_submit K ns npr sgl nents skb c)
    (\<lambda>r xs. \<exists>x. xs = [(skb, x)] \<and> r = Inr (int_to_long x))"
proof -
  have "\<exists>req. k_alloc_request K h q c = Inr req" "fst (k_execute_rq K h r) AND NVME_REQ_CANCELLED = 0" for h q r
    using assms unfolding kernel_serves_def by blast+
  note answers = this
  have alloc: "k_alloc_request K h q c \<noteq> Inl e" for h q e using answers(1) by (metis sum.distinct(1))
  show ?thesis
    unfolding txpkt_submit_def
    by (auto simp: obeys_simps collect_def [of _ "_ :: (sk_buff \<times> s32) list"] Let_def alloc answers(2)
          case_prod_beta
        split: option.splits sum.splits kevent.splits
        intro!: obeys_bind obeys_mono [OF blk_rq_map_from_sgl_served [OF assms]])
qed

lemma txpkt_one_served:
  assumes "kernel_serves K" "skb_api_ok K" "sgl_alloc_ok K" "packet_fits K npr"
    and "txpkt_nblocks (xmit_len npr) (ns_lba_shift (k_private_data K (np_disk np))) \<noteq> None"
  shows "obeys collect_sent [] (nvpkt_ioctl_txpkt_one K np npr)
     (\<lambda>r xs. \<exists>skb x. xs = [(skb, x)] \<and> r = Inr (int_to_long x) \<and>
        skb_len skb = ucast (xmit_len npr) \<and> skb_dev skb = np_netdev np)"
proof -
  let ?n = "xmit_len npr + k_shinfo K"
  have sgl: "k_sgl_alloc K h ?n \<noteq> None" for h
    using assms(1) by (simp add: kernel_serves_def)
  have mac: "\<exists>m. k_skb_set_mac_header K s 0 = s\<lparr>skb_mac_header := m\<rparr>" for s
    using assms(2) by (simp add: skb_api_ok_def)
  have skb: "obeys collect_sent [] (skb_from_sgvec K sgl nents ?n) (\<lambda>r ys. ys = [] \<and>
      (\<exists>skb. r = Inr (Some skb) \<and> skb_len skb = ucast (xmit_len npr)))"
    if "k_sgl_alloc K h ?n = Some (sgl, nents)" for h sgl nents
  proof (rule obeys_result [OF skb_from_sgvec_collects])
    fix h' r h''
    assume run: "run_state (skb_from_sgvec K sgl nents ?n) h' = (r, h'')"
    show "\<exists>skb. r = Inr (Some skb) \<and> skb_len skb = ucast (xmit_len npr)"
      using skb_from_sgvec_served [OF assms(1) run] skb_from_sgvec_result [OF assms(2-4) that run] by auto
  qed (auto split: kevent.splits)
  have submit: "obeys collect_sent [] (txpkt_submit K ns npr sgl nents
        (k_skb_set_mac_header K (skb\<lparr>skb_dev := np_netdev np\<rparr>) 0) c)
     (\<lambda>r xs. \<exists>skb x. xs = [(skb, x)] \<and> r = Inr (int_to_long x) \<and>
        skb_len skb = ucast (xmit_len npr) \<and> skb_dev skb = np_netdev np)"
    if "skb_len skb = ucast (xmit_len npr)" for ns sgl nents skb c
    using mac [of "skb\<lparr>skb_dev := np_netdev np\<rparr>"] that
    by (auto intro!: obeys_mono [OF txpkt_submit_served [OF assms(1)]])
  show ?thesis
    unfolding nvpkt_ioctl_txpkt_one_def using sgl assms(5)
    by (auto simp: obeys_simps collect_def [of _ "[] :: (sk_buff \<times> s32) list"] Let_def
        split: option.splits prod.splits sum.splits
        intro!: obeys_bind obeys_mono [OF skb] submit)
qed



end
