(* ===== verification/Nvpkt_Module.thy ===== *)
theory Nvpkt_Module
  imports Nvpkt_Ioctl
begin

section \<open>Loading and unloading the module\<close>

text \<open>
  \<open>nvpkt_init_module\<close> and \<open>nvpkt_exit_module\<close> of native-driver/nvpkt.c: what they acquire and
  release, and in which order. The module parameters are an argument. \<open>misc_register\<close> also
  replaces the dynamic minor number in the structure, which nothing in the module reads.
\<close>

subsection \<open>The two functions\<close>

record module_params =
  mp_nvme_device :: string
  mp_net_device :: string
  mp_mdev_path :: string

definition MISC_DYNAMIC_MINOR :: s32 where
  "MISC_DYNAMIC_MINOR = 255"

text \<open>\<open>memset (&nvpkt, 0, sizeof (nvpkt))\<close>\<close>

definition zero_nvpkt :: nvpkt where
  "zero_nvpkt = \<lparr>np_disk = 0, np_part = 0, np_netdev = 0, np_mdev = \<lparr>misc_minor = 0, misc_name = []\<rparr>\<rparr>"

text \<open>The result is the return value and the module's state.\<close>

definition nvpkt_init_module :: "kernel \<Rightarrow> module_params \<Rightarrow> (kevent, s32 \<times> nvpkt) io" where
  "nvpkt_init_module K mp = do {
     let np = zero_nvpkt;
     devt \<leftarrow> ask (\<lambda>h. k_lookup_devt K h (mp_nvme_device mp)) (\<lambda>r. LookupDevt (mp_nvme_device mp) r);
     if devt = 0 then State_Monad.return (- ENODEV, np)
     else do {
       (disk, partno) \<leftarrow> ask (\<lambda>h. k_get_gendisk K h devt) (\<lambda>(d, p). GetGendisk devt d);
       if disk = 0 then State_Monad.return (- ENODEV, np)
       else do {
         part \<leftarrow> ask (\<lambda>h. k_disk_get_part K h disk partno) (\<lambda>r. DiskGetPart disk partno r);
         if part = 0 then State_Monad.return (- EBUSY, np)
         else do {
           let np1 = np\<lparr>np_disk := disk, np_part := part\<rparr>;
           dev \<leftarrow> ask (\<lambda>h. k_dev_get_by_name K h (mp_net_device mp))
             (\<lambda>r. DevGetByName (mp_net_device mp) r);
           if dev = 0 then do {
             emit (DiskPutPart (np_part np1));
             State_Monad.return (- ENODEV, np1)
           }
           else do {
             let np2 = np1\<lparr>np_netdev := dev,
               np_mdev := \<lparr>misc_minor = MISC_DYNAMIC_MINOR, misc_name = mp_mdev_path mp\<rparr>\<rparr>;
             ret \<leftarrow> ask (\<lambda>h. k_misc_register K h (misc_name (np_mdev np2)))
               (\<lambda>r. MiscRegister (misc_name (np_mdev np2)) r);
             if sint ret < 0 then do {
               emit (DevPut (np_netdev np2));
               emit (DiskPutPart (np_part np2));
               State_Monad.return (ret, np2)
             }
             else State_Monad.return (ret, np2)
           }
         }
       }
     }
   }"

definition nvpkt_exit_module :: "nvpkt \<Rightarrow> (kevent, unit) io" where
  "nvpkt_exit_module np = do {
     emit (DiskPutPart (np_part np));
     emit (DevPut (np_netdev np));
     emit MiscDeregister
   }"

subsection \<open>What is held\<close>

text \<open>
  The resources a trace acquires, the latest first: references to the disk, its partition and the
  network device, and the registration. A release of something that is not held is an error.
  \<open>lifo\<close> also demands that only the latest one is released.
\<close>

datatype resource = Gendisk ptr | Partition ptr | Netdev ptr | Mdev

definition release :: "bool \<Rightarrow> resource \<Rightarrow> resource list \<Rightarrow> resource list option" where
  "release lifo x xs =
     (if x \<notin> set xs \<or> (lifo \<and> hd xs \<noteq> x) then None else Some (remove1 x xs))"

fun resources :: "bool \<Rightarrow> resource list \<Rightarrow> kevent \<Rightarrow> resource list option" where
  "resources lifo xs (GetGendisk n d) = Some (if d = 0 then xs else Gendisk d # xs)"
| "resources lifo xs (DiskGetPart d n p) = Some (if p = 0 then xs else Partition p # xs)"
| "resources lifo xs (DevGetByName n d) = Some (if d = 0 then xs else Netdev d # xs)"
| "resources lifo xs (MiscRegister n r) = Some (if sint r < 0 then xs else Mdev # xs)"
| "resources lifo xs (DiskPutPart p) = release lifo (Partition p) xs"
| "resources lifo xs (DevPut d) = release lifo (Netdev d) xs"
| "resources lifo xs MiscDeregister = release lifo Mdev xs"
| "resources lifo xs e = Some xs"

definition held_after_init :: "s32 \<Rightarrow> nvpkt \<Rightarrow> resource list \<Rightarrow> bool" where
  "held_after_init ret np xs \<longleftrightarrow>
     (if sint ret < 0 then xs = [] \<or> (\<exists>d. xs = [Gendisk d])
      else xs = [Mdev, Netdev (np_netdev np), Partition (np_part np), Gendisk (np_disk np)])"

lemma nvpkt_init_obeys:
  "obeys (resources True) [] (nvpkt_init_module K mp) (\<lambda>(ret, np) xs. held_after_init ret np xs)"
  unfolding nvpkt_init_module_def held_after_init_def
  by (auto simp: obeys_simps Let_def release_def split: prod.splits intro!: obeys_bind)

text \<open>
  C9. Loading the module undoes what it acquired. When it fails, the partition and the network
  device it got have been released in the reverse order of their acquisition and the character
  device is not registered; only the reference that \<open>get_gendisk\<close> took may be left. When it
  succeeds, exactly the device, its partition, the network device and the registration are held,
  by the pointers in the module's state.
\<close>

theorem init_module_releases_on_failure:
  assumes "run_state (nvpkt_init_module K mp) h = ((ret, np), h @ evs)"
  shows "\<exists>xs. proto_run (resources True) [] evs = Some xs \<and>
    (if sint ret < 0 then xs = [] \<or> (\<exists>d. xs = [Gendisk d])
     else xs = [Mdev, Netdev (np_netdev np), Partition (np_part np), Gendisk (np_disk np)])"
  using obeys_run [OF nvpkt_init_obeys assms] by (simp add: held_after_init_def)

definition demo_params :: module_params where
  "demo_params = \<lparr>mp_nvme_device = ''nvme0n1'', mp_net_device = ''eth0'', mp_mdev_path = ''nvpkt''\<rparr>"

definition busy_kernel :: kernel where
  "busy_kernel = demo_kernel\<lparr>k_misc_register := \<lambda>h s. - EBUSY\<rparr>"

definition demo_loaded :: nvpkt where
  "demo_loaded = zero_nvpkt\<lparr>np_disk := 0x30, np_part := 0x60, np_netdev := 0x70,
     np_mdev := \<lparr>misc_minor = MISC_DYNAMIC_MINOR, misc_name = ''nvpkt''\<rparr>\<rparr>"

lemma demo_answers:
  "k_lookup_devt demo_kernel h s = 0x10300001" "k_get_gendisk demo_kernel h d = (0x30, 0)"
  "k_disk_get_part demo_kernel h p q = 0x60" "k_dev_get_by_name demo_kernel h s = 0x70"
  "k_misc_register demo_kernel h s = 0" "k_lookup_devt busy_kernel h s = 0x10300001"
  "k_get_gendisk busy_kernel h d = (0x30, 0)" "k_disk_get_part busy_kernel h p q = 0x60"
  "k_dev_get_by_name busy_kernel h s = 0x70" "k_misc_register busy_kernel h s = - 16"
  by (simp_all add: busy_kernel_def demo_kernel_def)

definition demo_load :: "s32 \<Rightarrow> kevent list" where
  "demo_load ret = [LookupDevt ''nvme0n1'' 0x10300001, GetGendisk 0x10300001 0x30,
     DiskGetPart 0x30 0 0x60, DevGetByName ''eth0'' 0x70, MiscRegister ''nvpkt'' ret]"

lemma demo_init:
  "run_state (nvpkt_init_module demo_kernel demo_params) [] = ((0, demo_loaded), [] @ demo_load 0)"
  "run_state (nvpkt_init_module busy_kernel demo_params) [] =
     ((- 16, demo_loaded), [] @ demo_load (- 16) @ [DevPut 0x70, DiskPutPart 0x60])"
  by (simp_all only: nvpkt_init_module_def Let_def demo_answers run_state_bind run_ask split_beta fst_conv snd_conv)
    (simp_all add: demo_loaded_def demo_load_def demo_params_def)

theorem init_module_releases_on_failure_witness:
  "proto_run (resources True) [] (demo_load (- 16) @ [DevPut 0x70, DiskPutPart 0x60]) = Some [Gendisk 0x30]"
proof -
  have "proto_run (resources True) [] (demo_load (- 16) @ [DevPut 0x70, DiskPutPart 0x60]) \<noteq> None"
    using init_module_releases_on_failure [OF demo_init(2)] by auto
  then show ?thesis
    by (auto simp: demo_load_def release_def)
qed

text \<open>
  Unloading balances loading: after a load that succeeded, the unload releases the
  partition, the network device and the registration, each exactly once, and nothing that is not
  held; the reference to the disk is left. The order is that of acquisition and not the reverse:
  the device is still registered when what its operations use has been released.
\<close>

theorem exit_module_releases:
  assumes "run_state (nvpkt_init_module K mp) h = ((ret, np), h @ evs)" and "0 \<le> sint ret"
    and "run_state (nvpkt_exit_module np) h' = ((), h' @ evs')"
  shows "proto_run (resources False) [] (evs @ evs') = Some [Gendisk (np_disk np)] \<and>
    proto_run (resources True) [] (evs @ evs') = None \<and>
    (\<forall>as bs. evs' = as @ MiscDeregister # bs \<longrightarrow>
      DiskPutPart (np_part np) \<in> set as \<and> DevPut (np_netdev np) \<in> set as)"
proof -
  have init: "obeys (resources lifo) [] (nvpkt_init_module K mp) (\<lambda>(ret, np) xs. held_after_init ret np xs)"
    for lifo
    unfolding nvpkt_init_module_def held_after_init_def
    by (auto simp: obeys_simps Let_def release_def split: prod.splits intro!: obeys_bind)
  have held: "proto_run (resources lifo) [] evs =
      Some [Mdev, Netdev (np_netdev np), Partition (np_part np), Gendisk (np_disk np)]" for lifo
    using obeys_run [OF init assms(1), of lifo] assms(2) by (simp add: held_after_init_def)
  have evs': "evs' = [DiskPutPart (np_part np), DevPut (np_netdev np), MiscDeregister]"
    using assms(3) by (simp add: nvpkt_exit_module_def)
  show ?thesis
    by (auto simp: proto_run_append held evs' release_def Cons_eq_append_conv)
qed

theorem exit_module_releases_witness:
  "proto_run (resources False) []
     (demo_load 0 @ [DiskPutPart 0x60, DevPut 0x70, MiscDeregister]) = Some [Gendisk 0x30]"
proof -
  have exit: "run_state (nvpkt_exit_module demo_loaded) [] = ((), [] @
      [DiskPutPart 0x60, DevPut 0x70, MiscDeregister])"
    by (simp add: nvpkt_exit_module_def demo_loaded_def)
  have "np_disk demo_loaded = 0x30" by (simp add: demo_loaded_def)
  with exit_module_releases [OF demo_init(1) _ exit] show ?thesis by simp
qed

end
