(* ===== verification/Module_Life.thy ===== *)
theory Module_Life
  imports Nvpkt_Module
begin

section \<open>The life of the module\<close>

text \<open>
  Loading, any number of system calls on the device (\<open>nvpkt_fops\<close>), and unloading, composed
  in the order the kernel runs them in. The handlers neither acquire nor release what the module holds,
  so what loading established is there for every call, and what unloading releases is what loading
  acquired. A fault in a handler stops the kernel thread: nothing is unloaded then.
\<close>

subsection \<open>One life\<close>

definition module_session ::
  "kernel \<Rightarrow> module_params \<Rightarrow> file_call list \<Rightarrow> (kevent, s32 \<times> nvpkt \<times> (fault + s64 list)) io" where
  "module_session K mp calls = do {
     (ret, np) \<leftarrow> nvpkt_init_module K mp;
     if sint ret < 0 then State_Monad.return (ret, np, Inr [])
     else do {
       served \<leftarrow> serve (nvpkt_fops K np) calls;
       (case served of
          Inl f \<Rightarrow> State_Monad.return (ret, np, Inl f)
        | Inr rs \<Rightarrow> do {
            nvpkt_exit_module np;
            State_Monad.return (ret, np, Inr rs)
          })
     }
   }"

subsection \<open>The handlers leave the resources alone\<close>

fun no_resource :: "kevent \<Rightarrow> bool" where
  "no_resource (GetGendisk n d) = False"
| "no_resource (DiskGetPart d n p) = False"
| "no_resource (DevGetByName n d) = False"
| "no_resource (MiscRegister n r) = False"
| "no_resource (DiskPutPart p) = False"
| "no_resource (DevPut d) = False"
| "no_resource MiscDeregister = False"
| "no_resource e = True"

lemma no_resource_run:
  "\<forall>e \<in> set evs. no_resource e \<Longrightarrow> proto_run (resources lifo) xs evs = Some xs"
proof (induction evs)
  case (Cons e es)
  moreover have "no_resource e \<Longrightarrow> resources lifo xs e = Some xs" by (cases e) simp_all
  ultimately show ?case by simp
qed simp

lemma skb_loop_resources:
  "obeys (watch no_resource) () (skb_from_sgvec_loop K buf_len ms offset n skb) (\<lambda>_ _. True)"
  by (induction ms arbitrary: offset n skb)
    (auto simp: obeys_simps watch_def Let_def intro!: obeys_bind split: option.splits)

lemma skb_from_sgvec_resources:
  "obeys (watch no_resource) () (skb_from_sgvec K sgl nents buf_len) (\<lambda>_ _. True)"
  unfolding skb_from_sgvec_def
  by (auto simp: obeys_simps watch_def split: sum.splits
      intro!: obeys_bind obeys_mono [OF skb_loop_resources])

lemma bio_loop_resources:
  "obeys (watch no_resource) () (blk_rq_map_from_sgl_loop K req buf_len ms offset b) (\<lambda>_ _. True)"
  by (induction ms arbitrary: offset b)
    (auto simp: obeys_simps watch_def Let_def intro!: obeys_bind split: prod.splits)

lemma blk_rq_map_from_sgl_resources:
  "obeys (watch no_resource) () (blk_rq_map_from_sgl K req sgl nents n) (\<lambda>_ _. True)"
  unfolding blk_rq_map_from_sgl_def
  by (auto simp: obeys_simps watch_def split: option.splits prod.splits
      intro!: obeys_bind obeys_mono [OF bio_loop_resources])

lemma txpkt_submit_resources:
  "obeys (watch no_resource) () (txpkt_submit K ns npr sgl nents skb c) (\<lambda>_ _. True)"
  unfolding txpkt_submit_def
  by (auto simp: obeys_simps watch_def Let_def split: option.splits prod.splits sum.splits
      intro!: obeys_bind obeys_mono [OF blk_rq_map_from_sgl_resources])

lemma txpkt_one_resources:
  "obeys (watch no_resource) () (nvpkt_ioctl_txpkt_one K np npr) (\<lambda>_ _. True)"
  unfolding nvpkt_ioctl_txpkt_one_def
  by (auto simp: obeys_simps watch_def Let_def split: option.splits prod.splits sum.splits
      intro!: obeys_bind obeys_mono [OF skb_from_sgvec_resources] txpkt_submit_resources)

lemma txpkt_count_loop_resources:
  "obeys (watch no_resource) () (nvpkt_txpkt_count_loop K np npr count) (\<lambda>_ _. True)"
proof (induction K np npr count rule: nvpkt_txpkt_count_loop.induct)
  case (1 K np npr count)
  then show ?case
    by (subst nvpkt_txpkt_count_loop.simps)
      (auto simp: obeys_simps split: sum.splits intro!: obeys_bindI [OF txpkt_one_resources])
qed

lemma ioctl_resources: "obeys (watch no_resource) () (nvpkt_ioctl K np cmd arg) (\<lambda>_ _. True)"
  unfolding nvpkt_ioctl_def nvpkt_ioctl_txpkt_def nvpkt_ioctl_txpkt_count_def nvpkt_ioctl_submit_io_def
    submit_io_request_def
  by (auto simp: obeys_simps watch_def Let_def split: prod.splits sum.splits option.splits
      intro!: obeys_bind txpkt_one_resources obeys_mono [OF txpkt_count_loop_resources])

lemma serve_resources:
  assumes "\<And>i. obeys (watch no_resource) () (run i) (\<lambda>_ _. True)"
  shows "obeys (watch no_resource) () (serve run is) (\<lambda>_ _. True)"
proof (induction "is")
  case (Cons i "is")
  have "obeys (watch no_resource) () (State_Monad.bind (serve run is)
      (\<lambda>rs. State_Monad.return (case rs of Inl f \<Rightarrow> Inl f | Inr ys \<Rightarrow> Inr (y # ys)))) (\<lambda>_ _. True)" for y
    by (rule obeys_bindI [OF Cons.IH]) (simp add: obeys_simps)
  then show ?case
    by (auto simp: obeys_simps split: sum.splits intro!: obeys_bindI [OF assms])
qed (simp add: obeys_simps watch_def)

subsection \<open>A whole life\<close>

text \<open>The events that use the devices the module holds.\<close>

fun uses_devices :: "kevent \<Rightarrow> bool" where
  "uses_devices (ExecuteRq q f s) = True"
| "uses_devices (QueueXmit s r) = True"
| "uses_devices e = False"

lemma init_req_proto: "obeys req_proto NoReq (nvpkt_init_module K mp) (\<lambda>_ p. p = NoReq)"
  unfolding nvpkt_init_module_def
  by (auto simp: obeys_simps watch_def Let_def req_proto_def split: prod.splits intro!: obeys_bind)

lemma exit_req_proto: "obeys req_proto NoReq (nvpkt_exit_module np) (\<lambda>_ p. p = NoReq)"
  unfolding nvpkt_exit_module_def
  by (auto simp: obeys_simps watch_def req_proto_def intro!: obeys_bind)

lemma nvpkt_init_resources:
  "obeys (resources False) [] (nvpkt_init_module K mp) (\<lambda>(ret, np) xs. held_after_init ret np xs)"
  unfolding nvpkt_init_module_def held_after_init_def
  by (auto simp: obeys_simps Let_def release_def split: prod.splits intro!: obeys_bind)

lemma init_uses_nothing:
  "obeys (watch (\<lambda>e. \<not> uses_devices e)) () (nvpkt_init_module K mp) (\<lambda>_ _. True)"
  unfolding nvpkt_init_module_def
  by (auto simp: obeys_simps watch_def Let_def split: prod.splits intro!: obeys_bind)

lemma fops_resources: "obeys (watch no_resource) () (nvpkt_fops K np call) (\<lambda>_ _. True)"
  by (cases call) (simp_all add: ioctl_resources obeys_return)

text \<open>A run of a life that ends, cut into its three parts.\<close>

lemma module_session_parts:
  assumes "run_state (module_session K mp calls) h = ((ret, np, Inr rs), h @ evs)" and "0 \<le> sint ret"
  obtains e1 e2 where "evs = e1 @ e2 @ [DiskPutPart (np_part np), DevPut (np_netdev np), MiscDeregister]"
    "run_state (nvpkt_init_module K mp) h = ((ret, np), h @ e1)"
    "run_state (serve (nvpkt_fops K np) calls) (h @ e1) = (Inr rs, (h @ e1) @ e2)"
proof -
  obtain ret' np' h1 where init: "run_state (nvpkt_init_module K mp) h = ((ret', np'), h1)"
    by (metis prod.exhaust)
  obtain r h2 where served: "run_state (serve (nvpkt_fops K np') calls) h1 = (r, h2)"
    by (metis prod.exhaust)
  have eq: "ret' = ret" "np' = np"
    using assms(1) init served by (auto simp: module_session_def split: if_splits sum.splits prod.splits)
  with assms init served have "r = Inr rs" and
    h: "h2 @ [DiskPutPart (np_part np), DevPut (np_netdev np), MiscDeregister] = h @ evs"
    by (auto simp: module_session_def nvpkt_exit_module_def split: sum.splits)
  moreover obtain e1 where "h1 = h @ e1"
    using obeys_extends [OF nvpkt_init_obeys init] by blast
  moreover obtain e2 where "h2 = h1 @ e2"
    using obeys_extends [OF fops.serve_idle served] by blast
  ultimately show thesis
    using init served eq by (intro that [of e1 e2]) auto
qed

text \<open>
  C2. A whole life of the module, from loading over any sequence of calls to unloading, balances:
  when no handler faulted, every request was freed and every packet sent after its read, the device, the partition
  and the registration are released with only the reference to the disk left over; and whenever the disk
  executed a request or the network got a packet, all that loading acquired was still held.
\<close>

theorem module_session_balanced:
  assumes "run_state (module_session K mp calls) h = ((ret, np, Inr rs), h @ evs)" and "0 \<le> sint ret"
  shows "allocated_reqs evs = freed_reqs evs \<and> sent_after_read evs \<and>
    proto_run (resources False) [] evs = Some [Gendisk (np_disk np)] \<and>
    (\<forall>as e bs. evs = as @ e # bs \<longrightarrow> uses_devices e \<longrightarrow>
       proto_run (resources False) [] as =
         Some [Mdev, Netdev (np_netdev np), Partition (np_part np), Gendisk (np_disk np)])"
proof -
  let ?held = "[Mdev, Netdev (np_netdev np), Partition (np_part np), Gendisk (np_disk np)]"
  let ?e3 = "[DiskPutPart (np_part np), DevPut (np_netdev np), MiscDeregister]"
  from assms obtain e1 e2 where evs: "evs = e1 @ e2 @ ?e3"
    and init: "run_state (nvpkt_init_module K mp) h = ((ret, np), h @ e1)"
    and served: "run_state (serve (nvpkt_fops K np) calls) (h @ e1) = (Inr rs, (h @ e1) @ e2)"
    by (rule module_session_parts)
  have 1: "proto_run req_proto NoReq e1 = Some NoReq"
    using obeys_run [OF init_req_proto init] by auto
  have 2: "proto_run req_proto NoReq e2 = Some NoReq"
    using obeys_run [OF fops.serve_idle served] by auto
  have 3: "proto_run req_proto NoReq ?e3 = Some NoReq" by (simp add: req_proto_def)
  have req: "proto_run req_proto NoReq evs = Some NoReq"
    by (simp add: evs proto_run_append 1 2 3 del: proto_run.simps)
  have held: "proto_run (resources False) [] e1 = Some ?held"
    using obeys_run [OF nvpkt_init_resources init] assms(2) by (simp add: held_after_init_def)
  have neutral: "\<forall>e \<in> set e2. no_resource e"
    using obeys_watchD [OF serve_resources [OF fops_resources] served] by blast
  have quiet: "\<forall>e \<in> set e1. \<not> uses_devices e"
    using obeys_watchD [OF init_uses_nothing init] by auto
  have "proto_run (resources False) [] as = Some ?held"
    if "evs = as @ e # bs" and "uses_devices e" for as e bs
  proof -
    have "e \<in> set e2 \<and> (\<exists>cs ds. as = e1 @ cs \<and> e2 = cs @ e # ds)"
      using that quiet unfolding evs
      by (auto simp: append_eq_append_conv2 Cons_eq_append_conv append_eq_Cons_conv)
    then obtain cs ds where "as = e1 @ cs" "e2 = cs @ e # ds" by blast
    with held neutral show ?thesis
      by (simp add: proto_run_append no_resource_run)
  qed
  moreover have "proto_run (resources False) [] evs = Some [Gendisk (np_disk np)]"
    by (simp add: evs proto_run_append held no_resource_run [OF neutral] release_def)
  ultimately show ?thesis
    using req_proto_balance [of NoReq evs NoReq] req_proto_sent [OF req] req by auto
qed

lemma demo_loaded_nvpkt: "demo_loaded = demo_nvpkt"
  by (simp add: demo_loaded_def demo_nvpkt_def zero_nvpkt_def MISC_DYNAMIC_MINOR_def)

definition demo_calls :: "file_call list" where
  "demo_calls = [CallOpen, CallIoctl NVPKT_IOCTL_TXPKT 0x1000, CallRelease]"

theorem module_session_balanced_witness:
  "\<exists>evs. run_state (module_session demo_kernel demo_params demo_calls) [] =
      ((0, demo_nvpkt, Inr [0, 0, 0]), evs) \<and> allocated_reqs evs = freed_reqs evs \<and>
     proto_run (resources False) [] evs = Some [Gendisk 0x30]"
proof -
  obtain e2 where "run_state (nvpkt_ioctl demo_kernel demo_nvpkt NVPKT_IOCTL_TXPKT 0x1000) (demo_load 0) =
      (Inr 0, demo_load 0 @ e2)"
    using demo_ioctl_txpkt by blast
  then have run: "run_state (module_session demo_kernel demo_params demo_calls) [] =
      ((0, demo_nvpkt, Inr [0, 0, 0]), [] @ demo_load 0 @ e2 @ [DiskPutPart 0x60, DevPut 0x70, MiscDeregister])"
    by (simp add: module_session_def demo_calls_def demo_init demo_loaded_nvpkt nvpkt_exit_module_def)
      (simp add: demo_nvpkt_def)
  have "np_disk demo_nvpkt = 0x30" by (simp add: demo_nvpkt_def)
  with module_session_balanced [OF run] run show ?thesis by auto
qed

end
