(* ===== verification/Packet.thy ===== *)
theory Packet
  imports C_Library
begin

section \<open>The frames the tools build\<close>

text \<open>
  \<open>build_pkt\<close> of userland-driver/tools/load-and-xmit.c, xmit-from-pram.c and store-pkt.c, and the
  same statements in \<open>main\<close> of native-driver/tools/store-pkt.c: an Ethernet, an IPv4 and a UDP
  header are written into the start of a buffer. The buffer is a list of bytes; a store outside it
  is None. The header structures are the ones of the C library: \<open>struct ether_header\<close> at offset
  0, \<open>struct ip\<close> at 14 and \<open>struct udphdr\<close> at 34, the version and the header length being the
  high and the low half of the first byte of the IP header.
\<close>

subsection \<open>Stores\<close>

definition store8 :: "nat \<Rightarrow> u8 \<Rightarrow> u8 list \<Rightarrow> u8 list option" where
  "store8 i v buf = (if i < length buf then Some (buf[i := v]) else None)"

text \<open>An assignment to a field of several bytes.\<close>

fun store_bytes :: "nat \<Rightarrow> u8 list \<Rightarrow> u8 list \<Rightarrow> u8 list option" where
  "store_bytes i [] buf = Some buf"
| "store_bytes i (v # vs) buf = do { buf1 \<leftarrow> store8 i v buf; store_bytes (i + 1) vs buf1 }"

text \<open>An assignment to a bit field: the other half of the byte keeps its value.\<close>

definition store_high :: "nat \<Rightarrow> u8 \<Rightarrow> u8 list \<Rightarrow> u8 list option" where
  "store_high i v buf = (if i < length buf
     then Some (buf[i := push_bit 4 (v AND 0x0f) OR (buf ! i AND 0x0f)]) else None)"

definition store_low :: "nat \<Rightarrow> u8 \<Rightarrow> u8 list \<Rightarrow> u8 list option" where
  "store_low i v buf = (if i < length buf
     then Some (buf[i := (buf ! i AND 0xf0) OR (v AND 0x0f)]) else None)"

text \<open>
  The bytes of a 16-bit value as the machine stores it, and \<open>htons\<close>; their composition is the
  big-endian representation on every machine.
\<close>

definition machine16 :: "bool \<Rightarrow> u16 \<Rightarrow> u8 list" where
  "machine16 be v = (if be then [ucast (drop_bit 8 v), ucast v] else [ucast v, ucast (drop_bit 8 v)])"

definition htons :: "bool \<Rightarrow> u16 \<Rightarrow> u16" where
  "htons be v = (if be then v else bswap16 v)"

definition net16 :: "u16 \<Rightarrow> u8 list" where
  "net16 v = [ucast (drop_bit 8 v), ucast v]"

lemma machine16_htons: "machine16 be (htons be v) = net16 v"
proof -
  have "(ucast (bswap16 v) :: u8) = ucast (drop_bit 8 v)"
    by (rule bit_word_eqI) (auto simp: bswap16_def bit_simps)
  moreover have "(ucast (drop_bit 8 (bswap16 v)) :: u8) = ucast v"
    by (rule bit_word_eqI) (auto simp: bswap16_def bit_simps dest: bit_imp_le_length)
  ultimately show ?thesis
    by (simp add: machine16_def htons_def net16_def)
qed

text \<open>\<open>inet_addr\<close> of a decimal dotted quad, as the bytes of its result in memory.\<close>

fun split_on :: "char \<Rightarrow> string \<Rightarrow> string list" where
  "split_on d [] = [[]]"
| "split_on d (c # cs) =
     (if c = d then [] # split_on d cs
      else (case split_on d cs of [] \<Rightarrow> [[c]] | p # ps \<Rightarrow> (c # p) # ps))"

definition inet_addr :: "string \<Rightarrow> u8 list" where
  "inet_addr s = map (\<lambda>p. of_nat (take_digits 10 p 0)) (split_on CHR ''.'' s)"

subsection \<open>The builders\<close>

text \<open>
  The statements the four share, in their order; \<open>len - sizeof (\<dots>)\<close> is computed in 64 bits and
  truncated by \<open>htons\<close>.
\<close>

definition write_headers ::
  "bool \<Rightarrow> u8 list \<Rightarrow> u8 list \<Rightarrow> string \<Rightarrow> string \<Rightarrow> s32 \<Rightarrow> u8 list \<Rightarrow> u8 list option" where
  "write_headers be shost dhost src dst len buf = do {
     buf \<leftarrow> store_bytes 6 shost buf;
     buf \<leftarrow> store_bytes 0 dhost buf;
     buf \<leftarrow> store_bytes 12 (machine16 be (htons be 0x0800)) buf;
     buf \<leftarrow> store_high 14 4 buf;
     buf \<leftarrow> store_low 14 5 buf;
     buf \<leftarrow> store_bytes 18 (machine16 be 0) buf;
     buf \<leftarrow> store8 15 0x10 buf;
     buf \<leftarrow> store_bytes 16 (machine16 be (htons be (ucast (scast len - 14 :: u64)))) buf;
     buf \<leftarrow> store_bytes 20 (machine16 be 0) buf;
     buf \<leftarrow> store8 22 16 buf;
     buf \<leftarrow> store8 23 17 buf;
     buf \<leftarrow> store_bytes 24 (machine16 be 0) buf;
     buf \<leftarrow> store_bytes 26 (inet_addr src) buf;
     buf \<leftarrow> store_bytes 30 (inet_addr dst) buf;
     buf \<leftarrow> store_bytes 38 (machine16 be (htons be (ucast (scast len - 14 - 20 :: u64)))) buf;
     buf \<leftarrow> store_bytes 36 (machine16 be (htons be 60000)) buf;
     buf \<leftarrow> store_bytes 34 (machine16 be (htons be 60000)) buf;
     store_bytes 40 (machine16 be 0) buf
   }"

text \<open>load-and-xmit.c and xmit-from-pram.c have the same function.\<close>

definition load_build_pkt :: "bool \<Rightarrow> u8 list \<Rightarrow> s32 \<Rightarrow> u8 list option" where
  "load_build_pkt be buf len = write_headers be [0x01, 0x02, 0x03, 0x04, 0x05, 0x06]
     [0xff, 0xff, 0xff, 0xff, 0xff, 0xff] ''10.0.0.2'' ''10.0.0.1'' len buf"

definition xmit_build_pkt :: "bool \<Rightarrow> u8 list \<Rightarrow> s32 \<Rightarrow> u8 list option" where
  "xmit_build_pkt be buf len = write_headers be [0x01, 0x02, 0x03, 0x04, 0x05, 0x06]
     [0xff, 0xff, 0xff, 0xff, 0xff, 0xff] ''10.0.0.2'' ''10.0.0.1'' len buf"

definition store_build_pkt :: "bool \<Rightarrow> u8 list \<Rightarrow> u8 list option" where
  "store_build_pkt be buf = (let len = 1024 in
     write_headers be [0x10, 0x20, 0x30, 0x40, 0x50, 0x60]
       [0xff, 0xff, 0xff, 0xff, 0xff, 0xff] ''45.0.0.2'' ''45.0.0.1'' len buf)"

text \<open>The packet part of \<open>main\<close> of the native store-pkt.c.\<close>

definition native_build_pkt :: "bool \<Rightarrow> u8 list \<Rightarrow> u8 list option" where
  "native_build_pkt be buf = (let len = 1024 in
     write_headers be [0x01, 0x02, 0x03, 0x04, 0x05, 0x06]
       [0x7c, 0xfe, 0x90, 0x0b, 0xc6, 0xad] ''10.0.0.2'' ''10.0.0.1'' len buf)"

subsection \<open>What a receiver reads\<close>

text \<open>
  An independent reading of a frame, by the layouts of the three protocols, and the checks a
  receiver makes. The header checksum is the ones' complement sum of the header's 16-bit words,
  which is 0xffff for a correct header.
\<close>

record frame =
  eth_dst :: "u8 list"
  eth_src :: "u8 list"
  eth_type :: nat
  ip_version :: nat
  ip_ihl :: nat
  ip_tos :: nat
  ip_total :: nat
  ip_ident :: nat
  ip_frag :: nat
  ip_ttl :: nat
  ip_proto :: nat
  ip_check :: nat
  ip_saddr :: "u8 list"
  ip_daddr :: "u8 list"
  udp_sport :: nat
  udp_dport :: nat
  udp_ulen :: nat
  udp_check :: nat
  payload :: "u8 list"

definition be16 :: "u8 list \<Rightarrow> nat \<Rightarrow> nat" where
  "be16 b i = 256 * unat (b ! i) + unat (b ! (i + 1))"

definition parse_frame :: "u8 list \<Rightarrow> frame option" where
  "parse_frame b = (if length b < 42 then None else Some
     \<lparr>eth_dst = take 6 b, eth_src = take 6 (drop 6 b), eth_type = be16 b 12,
      ip_version = unat (b ! 14) div 16, ip_ihl = unat (b ! 14) mod 16, ip_tos = unat (b ! 15),
      ip_total = be16 b 16, ip_ident = be16 b 18, ip_frag = be16 b 20, ip_ttl = unat (b ! 22),
      ip_proto = unat (b ! 23), ip_check = be16 b 24, ip_saddr = take 4 (drop 26 b),
      ip_daddr = take 4 (drop 30 b), udp_sport = be16 b 34, udp_dport = be16 b 36,
      udp_ulen = be16 b 38, udp_check = be16 b 40, payload = drop 42 b\<rparr>)"

function fold16 :: "nat \<Rightarrow> nat" where
  "fold16 x = (if x < 65536 then x else fold16 (x mod 65536 + x div 65536))"
  by pat_completeness auto
termination
proof (relation "measure id")
  fix x :: nat
  assume "\<not> x < 65536"
  then have "0 < x div 65536" by (simp add: div_greater_zero_iff)
  moreover have "65536 * (x div 65536) + x mod 65536 = x" by (rule mult_div_mod_eq)
  ultimately show "(x mod 65536 + x div 65536, x) \<in> measure id" by (simp only: in_measure id_apply)
qed simp

declare fold16.simps [simp del]

definition header_sum :: "u8 list \<Rightarrow> nat" where
  "header_sum b = fold16 (sum_list (map (\<lambda>i. be16 b (14 + 2 * i)) [0 ..< 10]))"

text \<open>The header every builder writes.\<close>

definition frame_header :: "u8 list \<Rightarrow> u8 list \<Rightarrow> u8 list \<Rightarrow> u8 list \<Rightarrow> s32 \<Rightarrow> u8 list" where
  "frame_header shost dhost src dst len =
     dhost @ shost @ [0x08, 0x00, 0x45, 0x10] @ net16 (ucast (scast len - 14 :: u64)) @
     [0, 0, 0, 0, 16, 17, 0, 0] @ src @ dst @ net16 60000 @ net16 60000 @
     net16 (ucast (scast len - 34 :: u64)) @ [0, 0]"

text \<open>A store in range replaces a segment of the buffer.\<close>

lemma store8_segment: "i < length buf \<Longrightarrow> store8 i v buf = Some (take i buf @ [v] @ drop (i + 1) buf)"
  by (simp add: store8_def upd_conv_take_nth_drop)

lemma store_bytes_segment:
  "i + length vs \<le> length buf \<Longrightarrow>
     store_bytes i vs buf = Some (take i buf @ vs @ drop (i + length vs) buf)"
  by (induction vs arbitrary: i buf) (simp_all add: store8_segment add.commute)

lemma store_nibble_segment:
  "i < length buf \<Longrightarrow>
     store_high i v buf = Some (take i buf @ [push_bit 4 (v AND 0x0f) OR (buf ! i AND 0x0f)] @ drop (i + 1) buf)"
  "i < length buf \<Longrightarrow>
     store_low i v buf = Some (take i buf @ [(buf ! i AND 0xf0) OR (v AND 0x0f)] @ drop (i + 1) buf)"
  by (simp_all add: store_high_def store_low_def upd_conv_take_nth_drop)

lemma nibbles: "(0x40 OR x AND 0x0f) AND 0xf0 OR 5 = (0x45 :: u8)"
proof -
  have "(x AND 0x0f) AND 0xf0 = (0 :: u8)" by (simp add: and.assoc)
  then show ?thesis by (simp add: bit.conj_disj_distrib2)
qed

lemma net16_length [simp]: "length (net16 v) = 2"
  by (simp add: net16_def)

lemma write_headers_ok:
  assumes "42 \<le> length buf" and "length shost = 6" and "length dhost = 6"
    and "length (inet_addr src) = 4" and "length (inet_addr dst) = 4"
  shows "write_headers be shost dhost src dst len buf =
    Some (frame_header shost dhost (inet_addr src) (inet_addr dst) len @ drop 42 buf)"
proof -
  have zero: "machine16 be 0 = [0, 0]" by (simp add: machine16_def)
  have type: "net16 0x0800 = [8, 0]" by (simp add: net16_def)
  have len: "scast len - 14 - 20 = (scast len - 34 :: u64)" by simp
  show ?thesis
    unfolding write_headers_def machine16_htons zero type frame_header_def len
    using assms by (simp add: store_bytes_segment store8_segment store_nibble_segment nibbles
        nth_append del: store_bytes.simps)
qed

text \<open>A buffer without room for the headers is overrun.\<close>

lemma store_short:
  assumes "length buf < n" and "\<And>b. length b < n \<Longrightarrow> f b = None"
  shows "Option.bind (store_bytes i vs buf) f = None" "Option.bind (store8 i v buf) f = None"
    "Option.bind (store_high i v buf) f = None" "Option.bind (store_low i v buf) f = None"
proof -
  have len: "store_bytes i vs b = Some b' \<Longrightarrow> length b' = length b" for b b'
    by (induction vs arbitrary: i b) (auto simp: store8_def split: if_splits)
  show "Option.bind (store_bytes i vs buf) f = None"
    using assms len by (cases "store_bytes i vs buf") auto
  show "Option.bind (store8 i v buf) f = None"
    "Option.bind (store_high i v buf) f = None" "Option.bind (store_low i v buf) f = None"
    using assms by (auto simp: store8_def store_high_def store_low_def)
qed

lemma write_headers_short:
  assumes "length buf < 42"
  shows "write_headers be shost dhost src dst len buf = None"
proof -
  have last: "store_bytes 40 (machine16 be 0) b = None" if "length b < 42" for b
    using that by (auto simp: store8_def machine16_def)
  show ?thesis
    unfolding write_headers_def by (intro store_short [of _ 42] assms last)
qed

subsection \<open>The contract of a builder\<close>

lemma be16_net16: "256 * unat (ucast (drop_bit 8 (v :: u16)) :: u8) + unat (ucast v :: u8) = unat v"
proof -
  have "unat v < 2 ^ LENGTH(16)" by (rule unsigned_less)
  then have "unat (drop_bit 8 v) < 256"
    by (simp add: unat_drop_bit_div less_mult_imp_div_less)
  then have "unat (ucast (drop_bit 8 v) :: u8) = unat v div 256"
    by (simp add: unsigned_ucast_eq take_bit_nat_eq_self unat_drop_bit_div)
  moreover have "unat (ucast v :: u8) = unat v mod 256"
    by (simp add: unsigned_ucast_eq take_bit_eq_mod)
  ultimately show ?thesis by simp
qed

lemma be16_at:
  assumes "length pre = n"
  shows "be16 (pre @ net16 v @ rest) n = unat v" "be16 (pre @ [a, b] @ rest) n = 256 * unat a + unat b"
  using assms by (simp_all add: be16_def net16_def nth_append be16_net16)

text \<open>The two length fields, for the lengths that fit in them.\<close>

lemma ucast_of_int_64_16: "(ucast (word_of_int x :: u64) :: u16) = word_of_int x"
  by transfer (simp add: take_bit_take_bit)

lemma length_field:
  assumes "k \<le> sint len" and "sint len - k < 2 ^ 16"
  shows "unat (ucast (scast (len :: s32) - word_of_int k :: u64) :: u16) = nat (sint len - k)"
proof -
  have "scast len - word_of_int k = (word_of_int (sint len - k) :: u64)"
    by simp
  then have "(ucast (scast len - word_of_int k :: u64) :: u16) = word_of_int (sint len - k)"
    by (simp only: ucast_of_int_64_16)
  moreover have "uint (word_of_int x :: u16) = x" if "0 \<le> x" "x < 2 ^ 16" for x
    using that by (simp add: unsigned_of_int take_bit_int_eq_self)
  then have "uint (word_of_int (sint len - k) :: u16) = sint len - k"
    using assms by (metis diff_ge_0_iff_ge)
  ultimately show ?thesis
    by (metis nat_uint_eq)
qed

locale frame_builder =
  fixes build :: "u8 list \<Rightarrow> u8 list option"
    and shost dhost src dst :: "u8 list" and len :: s32
  assumes sizes: "length shost = 6" "length dhost = 6" "length src = 4" "length dst = 4"
    and fits: "42 \<le> length buf \<Longrightarrow> build buf = Some (frame_header shost dhost src dst len @ drop 42 buf)"
    and overrun: "length buf < 42 \<Longrightarrow> build buf = None"
begin

lemma header_length: "length (frame_header shost dhost src dst len) = 42"
  by (simp add: frame_header_def sizes)

lemma build_length: "build buf = Some b \<Longrightarrow> length b = length buf \<and> 42 \<le> length b \<and> drop 42 b = drop 42 buf"
  using fits [of buf] overrun [of buf] by (cases "42 \<le> length buf") (auto simp: header_length)

lemma build_again: "build buf = Some b \<Longrightarrow> build b = Some b"
  using fits [of buf] overrun [of buf] fits [of b] build_length [of buf b]
  by (cases "42 \<le> length buf") auto

definition ip_len_field :: u16 where
  "ip_len_field = ucast (scast len - 14 :: u64)"

definition udp_len_field :: u16 where
  "udp_len_field = ucast (scast len - 34 :: u64)"

lemma build_parse:
  assumes "build buf = Some b"
  shows "parse_frame b = Some \<lparr>eth_dst = dhost, eth_src = shost, eth_type = 0x800,
    ip_version = 4, ip_ihl = 5, ip_tos = 0x10, ip_total = unat ip_len_field, ip_ident = 0, ip_frag = 0,
    ip_ttl = 16, ip_proto = 17, ip_check = 0, ip_saddr = src, ip_daddr = dst, udp_sport = 60000,
    udp_dport = 60000, udp_ulen = unat udp_len_field, udp_check = 0, payload = drop 42 buf\<rparr>"
proof -
  have b: "b = frame_header shost dhost src dst len @ drop 42 buf"
    using assms fits overrun by (metis linorder_not_less option.distinct(1) option.inject)
  show ?thesis
    unfolding parse_frame_def b
    by (simp add: header_length) (simp add: frame_header_def sizes be16_def nth_append net16_def
        ip_len_field_def udp_len_field_def be16_net16)
qed

lemma build_header_sum:
  assumes "build buf = Some b"
  shows "header_sum b = fold16 (0x5521 + unat ip_len_field + be16 src 0 + be16 src 2 + be16 dst 0 + be16 dst 2)"
proof -
  have b: "b = frame_header shost dhost src dst len @ drop 42 buf"
    using assms fits overrun by (metis linorder_not_less option.distinct(1) option.inject)
  have "[0 ..< 10] = [0, 1, 2, 3, 4, 5, 6, 7, 8, 9 :: nat]"
    by (simp add: upt_rec)
  then show ?thesis
    unfolding header_sum_def b
    by (simp add: frame_header_def sizes be16_def nth_append net16_def ip_len_field_def be16_net16
        add.assoc)
qed

end

lemma inet_addr_values:
  "inet_addr ''10.0.0.2'' = [10, 0, 0, 2]" "inet_addr ''10.0.0.1'' = [10, 0, 0, 1]"
  "inet_addr ''45.0.0.2'' = [45, 0, 0, 2]" "inet_addr ''45.0.0.1'' = [45, 0, 0, 1]"
  by (simp_all add: inet_addr_def digit_val_def)

interpretation load: frame_builder "\<lambda>buf. load_build_pkt be buf len" "[0x01, 0x02, 0x03, 0x04, 0x05, 0x06]"
  "[0xff, 0xff, 0xff, 0xff, 0xff, 0xff]" "[10, 0, 0, 2]" "[10, 0, 0, 1]" len for be len
  by unfold_locales (simp_all add: load_build_pkt_def write_headers_ok write_headers_short inet_addr_values)

interpretation xmit: frame_builder "\<lambda>buf. xmit_build_pkt be buf len" "[0x01, 0x02, 0x03, 0x04, 0x05, 0x06]"
  "[0xff, 0xff, 0xff, 0xff, 0xff, 0xff]" "[10, 0, 0, 2]" "[10, 0, 0, 1]" len for be len
  by unfold_locales (simp_all add: xmit_build_pkt_def write_headers_ok write_headers_short inet_addr_values)

interpretation store: frame_builder "store_build_pkt be" "[0x10, 0x20, 0x30, 0x40, 0x50, 0x60]"
  "[0xff, 0xff, 0xff, 0xff, 0xff, 0xff]" "[45, 0, 0, 2]" "[45, 0, 0, 1]" 1024 for be
  by unfold_locales (simp_all add: store_build_pkt_def write_headers_ok write_headers_short inet_addr_values)

interpretation native: frame_builder "native_build_pkt be" "[0x01, 0x02, 0x03, 0x04, 0x05, 0x06]"
  "[0x7c, 0xfe, 0x90, 0x0b, 0xc6, 0xad]" "[10, 0, 0, 2]" "[10, 0, 0, 1]" 1024 for be
  by unfold_locales (simp_all add: native_build_pkt_def write_headers_ok write_headers_short inet_addr_values)

lemma xmit_total:
  assumes "42 \<le> sint len" and "sint len < 2 ^ 16 + 14"
  shows "14 + unat (xmit.ip_len_field len) = nat (sint len)"
    "20 + unat (xmit.udp_len_field len) = unat (xmit.ip_len_field len)"
proof -
  have "unat (xmit.ip_len_field len) = nat (sint len - 14)"
    using assms length_field [of 14 len] by (simp add: xmit.ip_len_field_def)
  moreover have "unat (xmit.udp_len_field len) = nat (sint len - 34)"
    using assms length_field [of 34 len] by (simp add: xmit.udp_len_field_def)
  moreover have "14 + nat (sint len - 14) = nat (sint len)" "20 + nat (sint len - 34) = nat (sint len - 14)"
    using assms by simp_all
  ultimately show "14 + unat (xmit.ip_len_field len) = nat (sint len)"
    "20 + unat (xmit.udp_len_field len) = unat (xmit.ip_len_field len)" by simp_all
qed

text \<open>
  C18. \<open>build_pkt\<close> of the two transmitters makes a well-formed frame: for every length from the
  42 bytes of the headers to the largest the length fields can hold, and a buffer with room for the
  headers, an independent reading of the result finds a UDP datagram from 10.0.0.2 to 10.0.0.1 in a
  broadcast frame, whose IP and UDP lengths agree with the length asked for and with each other; what
  follows the headers in the buffer is kept. A smaller buffer is overrun. Building again changes
  nothing.
\<close>

theorem build_pkt_roundtrip:
  assumes "42 \<le> sint len" and "sint len < 2 ^ 16 + 14"
  shows "load_build_pkt be buf len = xmit_build_pkt be buf len \<and>
    (xmit_build_pkt be buf len = None \<longleftrightarrow> length buf < 42) \<and>
    (\<forall>b. xmit_build_pkt be buf len = Some b \<longrightarrow> xmit_build_pkt be b len = Some b \<and>
      length b = length buf \<and> (\<exists>f. parse_frame b = Some f \<and>
      eth_dst f = [0xff, 0xff, 0xff, 0xff, 0xff, 0xff] \<and> eth_src f = [1, 2, 3, 4, 5, 6] \<and> eth_type f = 0x800 \<and>
      ip_version f = 4 \<and> ip_ihl f = 5 \<and> ip_proto f = 17 \<and> ip_frag f = 0 \<and>
      ip_saddr f = [10, 0, 0, 2] \<and> ip_daddr f = [10, 0, 0, 1] \<and>
      14 + ip_total f = nat (sint len) \<and> 20 + udp_ulen f = ip_total f \<and>
      udp_sport f = 60000 \<and> udp_dport f = 60000 \<and> payload f = drop 42 buf))"
proof -
  have same: "load_build_pkt be buf len = xmit_build_pkt be buf len"
    by (simp add: load_build_pkt_def xmit_build_pkt_def)
  have none: "xmit_build_pkt be buf len = None \<longleftrightarrow> length buf < 42"
    using xmit.fits [of buf be len] xmit.overrun [of buf be len] by (cases "length buf < 42") auto
  show ?thesis
  proof (intro conjI allI impI same none)
    fix b
    assume b: "xmit_build_pkt be buf len = Some b"
    show "xmit_build_pkt be b len = Some b" by (rule xmit.build_again [OF b])
    show "length b = length buf" using xmit.build_length [OF b] by simp
    show "\<exists>f. parse_frame b = Some f \<and>
      eth_dst f = [0xff, 0xff, 0xff, 0xff, 0xff, 0xff] \<and> eth_src f = [1, 2, 3, 4, 5, 6] \<and> eth_type f = 0x800 \<and>
      ip_version f = 4 \<and> ip_ihl f = 5 \<and> ip_proto f = 17 \<and> ip_frag f = 0 \<and>
      ip_saddr f = [10, 0, 0, 2] \<and> ip_daddr f = [10, 0, 0, 1] \<and>
      14 + ip_total f = nat (sint len) \<and> 20 + udp_ulen f = ip_total f \<and>
      udp_sport f = 60000 \<and> udp_dport f = 60000 \<and> payload f = drop 42 buf"
      by (rule exI, rule conjI, rule xmit.build_parse [OF b]) (simp add: xmit_total [OF assms])
  qed
qed

theorem build_pkt_roundtrip_witness:
  "\<exists>b f. xmit_build_pkt False (replicate 100 7) 100 = Some b \<and> parse_frame b = Some f \<and>
     ip_total f = 86 \<and> udp_ulen f = 66 \<and> payload f = replicate 58 7"
proof -
  have "42 \<le> sint (100 :: s32)" "sint (100 :: s32) < 2 ^ 16 + 14" by simp_all
  note b = build_pkt_roundtrip [OF this, of False "replicate 100 7"]
  then obtain c where "xmit_build_pkt False (replicate 100 7) 100 = Some c" by fastforce
  with b show ?thesis by fastforce
qed

lemma fold16_full:
  assumes "c < 65535" "t < 65536"
  shows "fold16 (c + t) = 65535 \<longleftrightarrow> c + t = 65535"
proof (cases "c + t < 65536")
  case True
  then show ?thesis by (simp add: fold16.simps [of "c + t"])
next
  case False
  have "(c + t) mod 65536 = c + t - 65536" "(c + t) div 65536 = 1"
    using False assms by (simp_all add: mod_if div_if)
  with False have "fold16 (c + t) = fold16 (c + t - 65536 + 1)"
    by (simp add: fold16.simps [of "c + t"])
  also have "\<dots> = c + t - 65536 + 1"
  proof -
    have "c + t - 65536 + 1 < 65536" using False assms by linarith
    then show ?thesis by (simp only: fold16.simps [of "c + t - 65536 + 1"] if_True)
  qed
  finally show ?thesis
    using False assms by simp
qed

text \<open>
  No builder computes the IP header checksum: it stays 0. The checksum of the frames of
  the two transmitters is therefore right for one length only, 38633; the 512 and 1024 bytes the
  programs use by default give a header that a receiver has to drop, and so do the two programs that
  store a packet on the device.
\<close>

theorem build_pkt_checksum:
  assumes "42 \<le> sint len" and "sint len < 2 ^ 16 + 14"
  shows "(\<forall>b. xmit_build_pkt be buf len = Some b \<longrightarrow> (header_sum b = 0xffff \<longleftrightarrow> sint len = 38633)) \<and>
    (\<forall>b. store_build_pkt be buf = Some b \<longrightarrow> header_sum b \<noteq> 0xffff) \<and>
    (\<forall>b. native_build_pkt be buf = Some b \<longrightarrow> header_sum b \<noteq> 0xffff)"
proof (intro conjI allI impI)
  fix b
  have len: "unat (ucast (scast len - 14 :: u64) :: u16) = nat (sint len - 14)"
    using assms length_field [of 14 len] by simp
  assume "xmit_build_pkt be buf len = Some b"
  from xmit.build_header_sum [OF this]
  have "header_sum b = fold16 (0x6924 + nat (sint len - 14))"
    by (simp add: xmit.ip_len_field_def len be16_def)
  moreover have "nat (sint len - 14) < 65536" using assms by simp
  ultimately show "header_sum b = 0xffff \<longleftrightarrow> sint len = 38633"
    using fold16_full [of "0x6924" "nat (sint len - 14)"] assms(1) by auto
next
  fix b
  assume "store_build_pkt be buf = Some b"
  from store.build_header_sum [OF this] show "header_sum b \<noteq> 0xffff"
    by (simp add: store.ip_len_field_def be16_def fold16.simps)
next
  fix b
  assume "native_build_pkt be buf = Some b"
  from native.build_header_sum [OF this] show "header_sum b \<noteq> 0xffff"
    by (simp add: native.ip_len_field_def be16_def fold16.simps)
qed

theorem build_pkt_checksum_witness:
  "\<exists>b. xmit_build_pkt False (replicate 64 0) 512 = Some b \<and> header_sum b \<noteq> 0xffff"
proof -
  have len: "42 \<le> sint (512 :: s32)" "sint (512 :: s32) < 2 ^ 16 + 14" "sint (512 :: s32) \<noteq> 38633"
    by simp_all
  obtain b where "xmit_build_pkt False (replicate 64 0) 512 = Some b"
    using xmit.fits [of "replicate 64 0" False 512] by auto
  with build_pkt_checksum [OF len(1,2), of False "replicate 64 0"] len(3) show ?thesis by blast
qed

end
