(* ===== verification/Native_Tools.thy ===== *)
theory Native_Tools
  imports Nvpkt_Module Packet
begin

section \<open>The tools on the module: xmit-pkt and store-pkt\<close>

text \<open>
  \<open>main\<close> of native-driver/tools/xmit-pkt.c and store-pkt.c. What their \<open>ioctl\<close> does is an argument of
  the programs, with the requirement that it leaves no block request behind; it is then instantiated
  with the module's own handler, called through the C library. The file descriptor \<open>open\<close> returned,
  the address of the local variable passed to \<open>ioctl\<close> and what the stack holds are arguments, too.
\<close>

subsection \<open>The programs\<close>

definition xmit_pkt_main ::
  "(u32 \<Rightarrow> nvpkt_xmit \<Rightarrow> (kevent, fault + s32) io) \<Rightarrow> s32 \<Rightarrow> string list \<Rightarrow> (kevent, fault + s32) io" where
  "xmit_pkt_main sys_ioctl fd args =
     (let count = (case args of [] \<Rightarrow> 0 | a # _ \<Rightarrow> scast (atoi a)) in
      if sint fd < 0 then State_Monad.return (Inr fd)
      else let npr = \<lparr>xmit_len = 1024, xmit_slba = 1, xmit_count = count\<rparr> in
        if count = 0 then sys_ioctl NVPKT_IOCTL_TXPKT npr
        else sys_ioctl NVPKT_IOCTL_TXPKT_COUNT npr)"

definition store_user_io :: "ptr \<Rightarrow> nvme_user_io" where
  "store_user_io buf = \<lparr>io_opcode = 1, io_flags = 0, io_control = 0, io_nblocks = 1, io_metadata = 0,
     io_addr = buf, io_slba = 1, io_dsmgmt = 0, io_reftag = 0, io_apptag = 0, io_appmask = 0\<rparr>"

text \<open>\<open>stack\<close> is what the 4096 bytes of \<open>buf\<close> hold before the packet is built in them.\<close>

definition store_pkt_main ::
  "bool \<Rightarrow> (u32 \<Rightarrow> nvme_user_io \<Rightarrow> (kevent, fault + s32) io) \<Rightarrow> ptr \<Rightarrow> u8 list \<Rightarrow> s32 \<Rightarrow>
   (kevent, fault + s32) io" where
  "store_pkt_main be sys_ioctl buf stack fd =
     (case native_build_pkt be stack of
        None \<Rightarrow> State_Monad.return (Inl OutOfBounds)
      | Some packet \<Rightarrow>
          if sint fd < 0 then State_Monad.return (Inr fd)
          else sys_ioctl NVPKT_IOCTL_SUBMIT_IO (store_user_io buf))"

subsection \<open>The interface to the device\<close>

locale xmit_device =
  fixes sys_ioctl :: "u32 \<Rightarrow> nvpkt_xmit \<Rightarrow> (kevent, fault + s32) io"
  assumes quiet: "obeys req_proto NoReq (sys_ioctl cmd npr) idle_after"
begin

lemma xmit_pkt_idle: "obeys req_proto NoReq (xmit_pkt_main sys_ioctl fd args) idle_after"
  unfolding xmit_pkt_main_def by (auto simp: obeys_simps Let_def intro: quiet)

end

locale store_device =
  fixes sys_ioctl :: "u32 \<Rightarrow> nvme_user_io \<Rightarrow> (kevent, fault + s32) io"
  assumes quiet: "obeys req_proto NoReq (sys_ioctl cmd io) idle_after"
begin

lemma store_pkt_idle: "obeys req_proto NoReq (store_pkt_main be sys_ioctl buf stack fd) idle_after"
  unfolding store_pkt_main_def by (auto simp: obeys_simps intro: quiet split: option.splits)

end

sublocale xmit_device \<subseteq> tool: request_handler "\<lambda>(fd, args). xmit_pkt_main sys_ioctl fd args"
  by unfold_locales (auto intro: xmit_pkt_idle)

sublocale store_device \<subseteq> tool: request_handler "\<lambda>(stack, fd). store_pkt_main be sys_ioctl buf stack fd"
  for be buf
  by unfold_locales (auto intro: store_pkt_idle)

subsection \<open>The module behind the interface\<close>

text \<open>
  \<open>ioctl\<close> of the C library: a result from -4095 to -1 is an error number, for which it returns
  -1; any other one it returns as an \<open>int\<close>.
\<close>

definition libc_result :: "s64 \<Rightarrow> s32" where
  "libc_result r = (if - 4095 \<le> sint r \<and> sint r < 0 then - 1 else ucast r)"

definition libc_ioctl :: "(kevent, handler_result) io \<Rightarrow> (kevent, fault + s32) io" where
  "libc_ioctl handler = do {
     r \<leftarrow> handler;
     State_Monad.return (case r of Inl f \<Rightarrow> Inl f | Inr x \<Rightarrow> Inr (libc_result x))
   }"

text \<open>The structure at \<open>arg\<close> is what the module copies.\<close>

definition xmit_ioctl :: "kernel \<Rightarrow> nvpkt \<Rightarrow> u64 \<Rightarrow> u32 \<Rightarrow> nvpkt_xmit \<Rightarrow> (kevent, fault + s32) io" where
  "xmit_ioctl K np arg cmd npr = libc_ioctl (nvpkt_ioctl (K\<lparr>k_copy_xmit := \<lambda>h a. (0, npr)\<rparr>) np cmd arg)"

definition store_ioctl :: "kernel \<Rightarrow> nvpkt \<Rightarrow> u64 \<Rightarrow> u32 \<Rightarrow> nvme_user_io \<Rightarrow> (kevent, fault + s32) io" where
  "store_ioctl K np arg cmd io = libc_ioctl (nvpkt_ioctl (K\<lparr>k_copy_io := \<lambda>h a. (0, io)\<rparr>) np cmd arg)"

lemma libc_ioctl_idle:
  assumes "obeys req_proto NoReq m idle_after"
  shows "obeys req_proto NoReq (libc_ioctl m) idle_after"
  unfolding libc_ioctl_def
  by (rule obeys_bindI [OF assms]) (auto simp: obeys_simps split: sum.splits)

interpretation native_xmit: xmit_device "xmit_ioctl K np arg" for K np arg
  by unfold_locales (simp add: xmit_ioctl_def libc_ioctl_idle ioctl_obeys)

interpretation native_store: store_device "store_ioctl K np arg" for K np arg
  by unfold_locales (simp add: store_ioctl_def libc_ioctl_idle ioctl_obeys)

lemma libc_ioctl_run:
  assumes "run_state (libc_ioctl m) h = (Inr x, h')"
  shows "\<exists>r. run_state m h = (Inr r, h') \<and> x = libc_result r"
  using assms unfolding libc_ioctl_def by (auto split: sum.splits prod.splits)

lemma libc_ioctl_same_trace: "snd (run_state (libc_ioctl m) h) = snd (run_state m h)"
  unfolding libc_ioctl_def by (auto split: prod.splits)

subsection \<open>What the caller of xmit-pkt sees\<close>

lemma s32_sint_small:
  assumes "unat (k :: s32) < 2 ^ 31"
  shows "sint k = int (unat k)"
proof -
  have "signed_take_bit 31 (int n) = int n" if "n < 2 ^ 31" for n
    using that by (simp add: signed_take_bit_int_eq_self)
  moreover have "sint k = signed_take_bit 31 (uint k)" by (simp add: sint_uint)
  ultimately show ?thesis using assms by (simp only: uint_nat)
qed

lemma count_word:
  assumes "0 < sint c" and "sint (c :: s32) < 2 ^ 31 - 1"
  shows "unat (scast c :: u64) = nat (sint c)" "(scast c :: u64) \<noteq> 0"
    "sint (libc_result (scast c + 1)) = sint c + 1"
proof -
  have c: "uint (scast c :: u64) = sint c" using s32_nonneg(2) [of c] assms(1) by simp
  then have n: "int (unat (scast c :: u64)) = sint c" by (simp only: uint_nat)
  then show u: "unat (scast c :: u64) = nat (sint c)" by (metis nat_int)
  with assms(1) show "(scast c :: u64) \<noteq> 0" by auto
  have "nat v + 1 < 2 ^ 31" if "v < 2 ^ 31 - 1" for v
    using that by simp
  then have small: "unat (scast c :: u64) + 1 < 2 ^ 31" unfolding u using assms(2) by blast
  have v: "unat (scast c + 1 :: u64) = unat (scast c :: u64) + 1"
    using small by (simp add: unat_word_ariths)
  have "0 \<le> sint (scast c + 1 :: u64)"
    by (rule sint_of_small) (use v small in simp)
  then have r: "libc_result (scast c + 1) = ucast (scast c + 1 :: u64)"
    by (simp add: libc_result_def)
  have w: "unat (ucast (scast c + 1 :: u64) :: s32) = unat (scast c :: u64) + 1"
    using small v by (simp add: unsigned_ucast_eq take_bit_nat_eq_self)
  have "sint (k :: s32) = int (unat k)" if "unat k < 2 ^ 31" for k
    using that by (metis s32_sint_small)
  from this [of "ucast (scast c + 1 :: u64)"] show "sint (libc_result (scast c + 1)) = sint c + 1"
    unfolding r w using small n by simp
qed


text \<open>
  C33. With a count, xmit-pkt always reports a failure: the module returns the count plus one,
  which the tool takes for an error and returns, although it has tried to send exactly as many packets as
  it was asked to.
\<close>

theorem xmit_pkt_reports_failure:
  assumes "0 < sint (atoi a)" and "sint (atoi a) < 2 ^ 31 - 1" and "0 \<le> sint fd"
    and "run_state (xmit_pkt_main (xmit_ioctl K np arg) fd (a # args)) h = (Inr x, h @ evs)"
  shows "sint x = sint (atoi a) + 1 \<and> x \<noteq> 0 \<and>
    sgl_allocs evs = replicate (nat (sint (atoi a))) (1024 + k_shinfo K)"
proof -
  let ?c = "scast (atoi a) :: u64"
  let ?npr = "\<lparr>xmit_len = 1024, xmit_slba = 1, xmit_count = ?c\<rparr>"
  let ?K = "K\<lparr>k_copy_xmit := \<lambda>h a. (0, ?npr)\<rparr>"
  note c = count_word [OF assms(1,2)]
  have "run_state (libc_ioctl (nvpkt_ioctl ?K np NVPKT_IOCTL_TXPKT_COUNT arg)) h = (Inr x, h @ evs)"
    using assms(3,4) c(2) by (simp add: xmit_pkt_main_def xmit_ioctl_def Let_def)
  then obtain r where r: "run_state (nvpkt_ioctl ?K np NVPKT_IOCTL_TXPKT_COUNT arg) h = (Inr r, h @ evs)"
    "x = libc_result r"
    using libc_ioctl_run by blast
  have "nvpkt_ioctl ?K np NVPKT_IOCTL_TXPKT_COUNT arg = nvpkt_ioctl_txpkt_count ?K np arg"
    by (simp add: nvpkt_ioctl_def NVPKT_IOCTL_TXPKT_def NVPKT_IOCTL_TXPKT_COUNT_def IOW_def)
  with r(1) have run: "run_state (nvpkt_ioctl_txpkt_count ?K np arg) h = (Inr r, h @ evs)" by simp
  have copy: "k_copy_xmit ?K h arg = (0, ?npr)" by simp
  from txpkt_count_result [OF copy run] have "r = ?c + 1"
    "sgl_allocs evs = replicate (unat ?c) (1024 + k_shinfo K)" by simp_all
  moreover from this(1) have "sint x = sint (atoi a) + 1" using r(2) c(3) by simp
  moreover have "x \<noteq> 0" using calculation(3) assms(1) by auto
  ultimately show ?thesis using c(1) by simp
qed

lemma demo_copy: "demo_kernel\<lparr>k_copy_xmit := \<lambda>h a. (0, demo_xmit)\<rparr> = demo_kernel"
  by (simp add: demo_kernel_def demo_xmit_def)

theorem xmit_pkt_reports_failure_witness:
  "\<exists>evs. run_state (xmit_pkt_main (xmit_ioctl demo_kernel demo_nvpkt 0x1000) 3 [''2'']) [] = (Inr 3, evs) \<and>
     sgl_allocs evs = [1344, 1344]"
proof -
  have atoi: "atoi ''2'' = 2"
    by (simp add: atoi_def strtol_def strtol_base_def is_space_def digit_val_def clamp_long_def)
  have npr: "\<lparr>xmit_len = 1024, xmit_slba = 1, xmit_count = 2\<rparr> = demo_xmit" by (simp add: demo_xmit_def)
  obtain evs where "run_state (nvpkt_txpkt_count_loop demo_kernel demo_nvpkt demo_xmit 0)
      [CopyFromUser 0x1000 24 0] = (Inr 2, [CopyFromUser 0x1000 24 0] @ evs)"
    using demo_count_loop by blast
  moreover have "k_copy_xmit demo_kernel [] 0x1000 = (0, demo_xmit)"
    by (simp add: demo_kernel_def demo_xmit_def)
  ultimately have "run_state (nvpkt_ioctl_txpkt_count demo_kernel demo_nvpkt 0x1000) [] =
      (Inr 3, [] @ CopyFromUser 0x1000 24 0 # evs)"
    by (simp add: nvpkt_ioctl_txpkt_count_def Let_def)
  moreover have "nvpkt_ioctl demo_kernel demo_nvpkt NVPKT_IOCTL_TXPKT_COUNT 0x1000 =
      nvpkt_ioctl_txpkt_count demo_kernel demo_nvpkt 0x1000"
    by (simp add: nvpkt_ioctl_def NVPKT_IOCTL_TXPKT_def NVPKT_IOCTL_TXPKT_COUNT_def IOW_def)
  moreover have "libc_result 3 = 3" by (simp add: libc_result_def)
  ultimately have run: "run_state (xmit_pkt_main (xmit_ioctl demo_kernel demo_nvpkt 0x1000) 3 [''2'']) [] =
      (Inr 3, [] @ CopyFromUser 0x1000 24 0 # evs)"
    by (simp add: xmit_pkt_main_def xmit_ioctl_def libc_ioctl_def atoi npr demo_copy)
  have shinfo: "k_shinfo demo_kernel = 320" by (simp add: demo_kernel_def)
  from xmit_pkt_reports_failure [OF _ _ _ run] run show ?thesis
    by (simp add: atoi shinfo numeral_2_eq_2)
qed

subsection \<open>What store-pkt stores\<close>

text \<open>
  C32. store-pkt writes its packet to where xmit-pkt reads, but takes the block count for a
  number of 512-byte blocks: the packet it builds is a well-formed frame of 1024 bytes, with what the
  stack held as payload, and the one command it issues writes from block 1 on; the module maps two blocks from
  the buffer, so the transfer stays inside the 4096 bytes of it exactly when a block has at most 2048
  bytes, and on a device with blocks of 4096 bytes it stores what lies behind the buffer on the stack.
\<close>

theorem store_pkt_writes_packet:
  assumes "\<not> k_big_endian K" and "length stack = 4096"
    and "ns = k_private_data K (np_disk np)" and "0 \<le> sint (ns_lba_shift ns)" and "sint (ns_lba_shift ns) \<le> 15"
    and "run_state (store_pkt_main be (store_ioctl K np arg) buf stack fd) h = (r, h @ evs)"
  shows "(\<exists>b f. native_build_pkt be stack = Some b \<and> length b = 4096 \<and> parse_frame b = Some f \<and>
      14 + ip_total f = 1024 \<and> payload f = drop 42 stack) \<and>
    (\<forall>c q. AllocRequest c q \<in> set evs \<longrightarrow> rw_opcode c = 1 \<and> rw_slba c = 1 \<and> rw_length c = 1) \<and>
    (\<forall>q a n x. MapUser q a n x \<in> set evs \<longrightarrow> a = buf \<and> unat n = 2 * 2 ^ nat (sint (ns_lba_shift ns)) \<and>
      (unat n \<le> 4096 \<longleftrightarrow> sint (ns_lba_shift ns) \<le> 11))"
proof -
  let ?s = "sint (ns_lba_shift ns)" and ?io = "store_user_io buf"
  let ?K = "K\<lparr>k_copy_io := \<lambda>h a. (0, ?io)\<rparr>"
  obtain b where b: "native_build_pkt be stack = Some b"
    using native.fits [where be = be and buf = stack] assms(2) by force
  note parse = native.build_parse [where be = be, OF b] native.build_length [where be = be, OF b]
  have len: "unat (native.ip_len_field) = 1010" by (simp add: native.ip_len_field_def)
  have small: "2 * 2 ^ nat ?s \<le> (4096 :: nat) \<longleftrightarrow> ?s \<le> 11"
  proof -
    have "2 ^ nat ?s \<le> (2 :: nat) ^ 11 \<longleftrightarrow> nat ?s \<le> 11" by (rule power_increasing_iff) simp
    then show ?thesis using assms(4) by (auto simp: nat_le_iff)
  qed
  have event: "case e of
      AllocRequest c _ \<Rightarrow> rw_opcode c = 1 \<and> rw_slba c = 1 \<and> rw_length c = 1
    | MapUser _ a n _ \<Rightarrow> a = buf \<and> unat n = 2 * 2 ^ nat ?s
    | _ \<Rightarrow> True" if e: "e \<in> set evs" for e
  proof (cases "sint fd < 0")
    case True
    then have "evs = []" using assms(6) b by (simp add: store_pkt_main_def)
    with e show ?thesis by simp
  next
    case False
    have "nvpkt_ioctl ?K np NVPKT_IOCTL_SUBMIT_IO arg = nvpkt_ioctl_submit_io ?K np arg"
      by (simp add: nvpkt_ioctl_def NVPKT_IOCTL_TXPKT_def NVPKT_IOCTL_TXPKT_COUNT_def
          NVPKT_IOCTL_SUBMIT_IO_def IOW_def)
    then have "snd (run_state (libc_ioctl (nvpkt_ioctl_submit_io ?K np arg)) h) = h @ evs"
      using assms(6) b False by (simp add: store_pkt_main_def store_ioctl_def)
    then have "snd (run_state (nvpkt_ioctl_submit_io ?K np arg) h) = h @ evs"
      by (simp add: libc_ioctl_same_trace)
    then obtain r' where run: "run_state (nvpkt_ioctl_submit_io ?K np arg) h = (r', h @ evs)"
      by (metis prod.collapse)
    have ns: "ns = k_private_data ?K (np_disk np)" using assms(3) by simp
    have io: "k_copy_io ?K h arg = (0, ?io)" "io_flags ?io = 0" "\<not> k_big_endian ?K"
      using assms(1) by (simp_all add: store_user_io_def)
    from submit_io_events [OF io(3,1,2) ns assms(4,5) run e] show ?thesis
      by (cases e) (simp_all add: store_user_io_def)
  qed
  show ?thesis
    using b parse assms(2) len small event by (fastforce dest: event)
qed


lemma demo_store_run:
  "\<exists>evs. run_state (nvpkt_ioctl_submit_io (demo_kernel\<lparr>k_copy_io := \<lambda>h a. (0, store_user_io 0x2000)\<rparr>)
       demo_nvpkt 0x1000) [] = (Inr 0, [] @ CopyFromUser 0x1000 48 0 #
     AllocRequest (submit_io_command demo_kernel demo_ns (store_user_io 0x2000)) (Inr 0x40) #
     MapUser 0x40 0x2000 1024 0 # evs)"
  by (simp add: nvpkt_ioctl_submit_io_def submit_io_request_def store_user_io_def demo_kernel_def demo_nvpkt_def
      demo_ns_def c_shl32_def Let_def int_to_long_def submit_io_command_def)

theorem store_pkt_writes_packet_witness:
  "\<exists>evs. run_state (store_pkt_main False (store_ioctl demo_kernel demo_nvpkt 0x1000) 0x2000 (replicate 4096 0) 3) [] =
      (Inr 0, evs) \<and> MapUser 0x40 0x2000 1024 0 \<in> set evs \<and>
     (\<exists>b f. native_build_pkt False (replicate 4096 0) = Some b \<and> parse_frame b = Some f \<and> 14 + ip_total f = 1024)"
proof -
  obtain evs where "run_state (nvpkt_ioctl_submit_io (demo_kernel\<lparr>k_copy_io := \<lambda>h a. (0, store_user_io 0x2000)\<rparr>)
      demo_nvpkt 0x1000) [] = (Inr 0, [] @ CopyFromUser 0x1000 48 0 #
     AllocRequest (submit_io_command demo_kernel demo_ns (store_user_io 0x2000)) (Inr 0x40) #
     MapUser 0x40 0x2000 1024 0 # evs)" (is "_ = (_, [] @ ?evs)")
    using demo_store_run by blast
  moreover have "nvpkt_ioctl K demo_nvpkt NVPKT_IOCTL_SUBMIT_IO 0x1000 = nvpkt_ioctl_submit_io K demo_nvpkt 0x1000" for K
    by (simp add: nvpkt_ioctl_def NVPKT_IOCTL_TXPKT_def NVPKT_IOCTL_TXPKT_COUNT_def NVPKT_IOCTL_SUBMIT_IO_def IOW_def)
  moreover have "libc_result 0 = 0" by (simp add: libc_result_def)
  moreover obtain b where "native_build_pkt False (replicate 4096 0) = Some b"
    using native.fits [where be = False and buf = "replicate 4096 0"] by force
  ultimately have run: "run_state (store_pkt_main False (store_ioctl demo_kernel demo_nvpkt 0x1000) 0x2000
      (replicate 4096 0) 3) [] = (Inr 0, [] @ ?evs)"
    by (simp add: store_pkt_main_def store_ioctl_def libc_ioctl_def)
  have shift: "sint (ns_lba_shift (k_private_data demo_kernel (np_disk demo_nvpkt))) = 9"
    "\<not> k_big_endian demo_kernel"
    by (simp_all add: demo_kernel_def demo_ns_def)
  from store_pkt_writes_packet [OF shift(2) _ refl _ _ run] run show ?thesis
    by (fastforce simp: shift(1))
qed

end
