(* ===== verification/User_Api.thy ===== *)
theory User_Api
  imports C_Library
begin

section \<open>The system as the userland tools see it\<close>

text \<open>
  The structures of netmap the tools read and write, the events of their calls into the C
  library, the kernel, netmap and unvme, and the environment that answers them: a record with one
  function per call. None of that code is in the repository. A function takes the history of the
  calls first, so its answers may vary. A netmap ring is memory shared with the kernel: a
  system call on the port may replace it, so those calls take the port and give it back.

  A value the C code leaves uninitialised is None. A program's end is one of the cases of
  \<open>outcome\<close>: a return value of \<open>main\<close>, a call of \<open>exit\<close>, a fault, or no end within the bound given.
\<close>

subsection \<open>netmap\<close>

record slot =
  slot_buf_idx :: u32
  slot_len :: u16
  slot_flags :: u16
  slot_ptr :: u64

record ring =
  ring_num_slots :: u32
  ring_head :: u32
  ring_cur :: u32
  ring_tail :: u32
  ring_slots :: "slot list"

text \<open>Which ring of the interface: its place in memory determines where its buffers are.\<close>

datatype ring_id = TxRing nat | RxRing nat

text \<open>An open port: \<open>struct nm_desc\<close> with the rings of its interface.\<close>

record port =
  port_fd :: s32
  port_first_rx_ring :: u16
  port_last_rx_ring :: u16
  port_rx_rings :: "ring list"
  port_tx_rings :: "ring list"

subsection \<open>The configuration of the transmitters\<close>

text \<open>
  \<open>struct body\<close>, which load-and-xmit.c and xmit-from-pram.c both declare as a global variable, so it
  starts as zeros; a name that was not given is NULL, here None.
\<close>

record body =
  body_nm_name :: "string option"
  body_nvme_pci :: "string option"
  body_nblocks :: s32
  body_slba :: u64
  body_count :: s32
  body_usleep :: s32
  body_batch_size :: s32

definition zero_body :: body where
  "zero_body = \<lparr>body_nm_name = None, body_nvme_pci = None, body_nblocks = 0, body_slba = 0,
     body_count = 0, body_usleep = 0, body_batch_size = 0\<rparr>"

subsection \<open>Events\<close>

datatype uevent =
    Open string s32
  | Lseek s32 s64 s64
  | ReadEntry s32 s64 u64
  | Close s32
  | Mmap u64 s32 ptr
  | Memset ptr u8 u64
  | StoreByte ptr u8
  | StoreFrame ptr "u8 list"
  | NmOpen "string option" bool
  | NmClose
  | TxSync s32
  | RxSync s32
  | Poll s32
  | Usleep s32
  | UnvmeOpen "string option" ptr
  | UnvmeAlloc ptr u64 ptr
  | UnvmeAllocPram ptr u64 ptr
  | UnvmeRead ptr s32 ptr u64 u32 s32
  | UnvmeWrite ptr s32 ptr u64 u32 s32
  | UnvmeFree ptr ptr
  | UnvmeClose ptr
  | Dump ptr string

subsection \<open>The environment\<close>

record host =
  h_big_endian :: bool
  h_ns_indirect :: u16 \<comment> \<open>\<open>NS_INDIRECT\<close>, a flag of netmap\<close>
  h_ns_phy_indirect :: u16 \<comment> \<open>\<open>NS_PHY_INDIRECT\<close>, a flag of an extended netmap\<close>
  h_pagesize :: s64
  h_open :: "uevent list \<Rightarrow> string \<Rightarrow> s32"
  h_lseek :: "uevent list \<Rightarrow> s32 \<Rightarrow> s64 \<Rightarrow> s64"
  h_read_entry :: "uevent list \<Rightarrow> s32 \<Rightarrow> s64 \<times> u64"
  h_mmap :: "uevent list \<Rightarrow> u64 \<Rightarrow> s32 \<Rightarrow> ptr"
  h_memory :: "uevent list \<Rightarrow> ptr \<Rightarrow> u8 list" \<comment> \<open>the object at an address\<close>
  h_nm_open :: "uevent list \<Rightarrow> string option \<Rightarrow> port option"
  h_nm_ring_empty :: "ring \<Rightarrow> bool"
  h_nm_ring_next :: "ring \<Rightarrow> u32 \<Rightarrow> u32"
  h_nm_buf :: "ring_id \<Rightarrow> u32 \<Rightarrow> ptr" \<comment> \<open>\<open>NETMAP_BUF (ring, index)\<close>\<close>
  h_txsync :: "uevent list \<Rightarrow> port \<Rightarrow> s32 \<times> port"
  h_rxsync :: "uevent list \<Rightarrow> port \<Rightarrow> s32 \<times> port"
  h_poll :: "uevent list \<Rightarrow> port \<Rightarrow> s32 \<times> port"
  h_unvme_open :: "uevent list \<Rightarrow> string option \<Rightarrow> ptr"
  h_unvme_alloc :: "uevent list \<Rightarrow> ptr \<Rightarrow> u64 \<Rightarrow> ptr"
  h_unvme_alloc_pram :: "uevent list \<Rightarrow> ptr \<Rightarrow> u64 \<Rightarrow> ptr"
  h_unvme_read :: "uevent list \<Rightarrow> ptr \<Rightarrow> s32 \<Rightarrow> ptr \<Rightarrow> u64 \<Rightarrow> u32 \<Rightarrow> s32"
  h_unvme_write :: "uevent list \<Rightarrow> ptr \<Rightarrow> s32 \<Rightarrow> ptr \<Rightarrow> u64 \<Rightarrow> u32 \<Rightarrow> s32"

datatype outcome = Returned "s32 option" | Exited s32 | Faulted fault | Unfinished

subsection \<open>Documented behaviour some properties assume\<close>

text \<open>
  The helpers of net/netmap_user.h: a ring is empty when \<open>cur\<close> has reached \<open>tail\<close>, and the index
  after the last slot is 0.
\<close>

definition netmap_ok :: "host \<Rightarrow> bool" where
  "netmap_ok H \<longleftrightarrow>
     (\<forall>r. h_nm_ring_empty H r \<longleftrightarrow> ring_cur r = ring_tail r) \<and>
     (\<forall>r i. h_nm_ring_next H r i = (if i + 1 = ring_num_slots r then 0 else i + 1))"

subsection \<open>A host on which everything succeeds\<close>

definition demo_slot :: slot where
  "demo_slot = \<lparr>slot_buf_idx = 2, slot_len = 0, slot_flags = 0, slot_ptr = 0\<rparr>"

definition demo_ring :: ring where
  "demo_ring = \<lparr>ring_num_slots = 4, ring_head = 0, ring_cur = 0, ring_tail = 3,
     ring_slots = replicate 4 demo_slot\<rparr>"

definition demo_port :: port where
  "demo_port = \<lparr>port_fd = 5, port_first_rx_ring = 0, port_last_rx_ring = 1,
     port_rx_rings = [demo_ring, demo_ring], port_tx_rings = [demo_ring]\<rparr>"

text \<open>The sync of a transmit ring hands its slots back.\<close>

definition demo_txsync :: "port \<Rightarrow> port" where
  "demo_txsync P = P\<lparr>port_tx_rings := map (\<lambda>r. r\<lparr>ring_tail :=
     (if ring_cur r = 0 then ring_num_slots r - 1 else ring_cur r - 1)\<rparr>) (port_tx_rings P)\<rparr>"

definition demo_host :: host where
  "demo_host = \<lparr>
     h_big_endian = False,
     h_ns_indirect = 0x0010,
     h_ns_phy_indirect = 0x0100,
     h_pagesize = 4096,
     h_open = (\<lambda>h f. 4),
     h_lseek = (\<lambda>h fd off. off),
     h_read_entry = (\<lambda>h fd. (8, 0x8000000000012345)),
     h_mmap = (\<lambda>h n fd. 0x7f0000000000),
     h_memory = (\<lambda>h a. replicate 4096 0),
     h_nm_open = (\<lambda>h n. Some demo_port),
     h_nm_ring_empty = (\<lambda>r. ring_cur r = ring_tail r),
     h_nm_ring_next = (\<lambda>r i. if i + 1 = ring_num_slots r then 0 else i + 1),
     h_nm_buf = (\<lambda>r i. 0x7e0000000000 + ucast i * 2048),
     h_txsync = (\<lambda>h P. (0, demo_txsync P)),
     h_rxsync = (\<lambda>h P. (0, P)),
     h_poll = (\<lambda>h P. (1, P)),
     h_unvme_open = (\<lambda>h n. 0x100),
     h_unvme_alloc = (\<lambda>h ns n. 0x200),
     h_unvme_alloc_pram = (\<lambda>h ns n. 0x300),
     h_unvme_read = (\<lambda>h ns q a l n. 0),
     h_unvme_write = (\<lambda>h ns q a l n. 0)\<rparr>"

lemma demo_host_ok: "netmap_ok demo_host"
  by (simp add: netmap_ok_def demo_host_def)

end
