(* ===== verification/Netmap_Ring.thy ===== *)
theory Netmap_Ring
  imports User_Api
begin

section \<open>The cursor of a netmap ring\<close>

text \<open>
  The step all three netmap tools make after they have handled a slot:
  \<open>cur = nm_ring_next (ring, cur); ring->head = ring->cur = cur\<close>. The lemmas describe it on a
  well-formed ring by the number of slots the tool still owns, those from \<open>cur\<close> up to \<open>tail\<close>.
\<close>

definition ring_advance :: "host \<Rightarrow> ring \<Rightarrow> u32 \<Rightarrow> ring" where
  "ring_advance H r i = (let cur = h_nm_ring_next H r i in r\<lparr>ring_head := cur, ring_cur := cur\<rparr>)"

text \<open>The invariant of a ring, and the slots the tool owns.\<close>

definition ring_wf :: "ring \<Rightarrow> bool" where
  "ring_wf r \<longleftrightarrow> length (ring_slots r) = unat (ring_num_slots r) \<and>
     ring_head r < ring_num_slots r \<and> ring_cur r < ring_num_slots r \<and> ring_tail r < ring_num_slots r"

definition ring_avail :: "ring \<Rightarrow> nat" where
  "ring_avail r = (unat (ring_tail r) + unat (ring_num_slots r) - unat (ring_cur r))
     mod unat (ring_num_slots r)"

text \<open>The index \<open>k\<close> steps after \<open>i\<close>.\<close>

definition ring_index :: "ring \<Rightarrow> nat \<Rightarrow> nat \<Rightarrow> nat" where
  "ring_index r i k = (i + k) mod unat (ring_num_slots r)"

lemma ring_advance_fields [simp]:
  "ring_num_slots (ring_advance H r i) = ring_num_slots r"
  "ring_slots (ring_advance H r i) = ring_slots r"
  "ring_tail (ring_advance H r i) = ring_tail r"
  "ring_head (ring_advance H r i) = ring_cur (ring_advance H r i)"
  by (simp_all add: ring_advance_def Let_def)

lemma ring_next_unat:
  assumes "netmap_ok H" and "i < ring_num_slots r"
  shows "unat (h_nm_ring_next H r i) = ring_index r (unat i) 1"
proof -
  have suc: "unat (i + 1) = unat i + 1" by (rule unat_plus_one [OF assms(2)])
  have lt: "unat i < unat (ring_num_slots r)" using assms(2) by (simp add: word_less_nat_alt)
  show ?thesis
  proof (cases "i + 1 = ring_num_slots r")
    case True
    then have "unat (ring_num_slots r) = unat i + 1" using suc by simp
    with True assms(1) show ?thesis by (simp add: netmap_ok_def ring_index_def)
  next
    case False
    then have "unat i + 1 \<noteq> unat (ring_num_slots r)" using suc by (metis word_unat_eq_iff)
    with lt have "unat i + 1 < unat (ring_num_slots r)" by simp
    with False assms(1) suc show ?thesis by (simp add: netmap_ok_def ring_index_def)
  qed
qed

lemma ring_index_less: "0 < unat (ring_num_slots r) \<Longrightarrow> ring_index r i k < unat (ring_num_slots r)"
  by (simp add: ring_index_def)

lemma ring_index_step: "ring_index r (ring_index r i j) k = ring_index r i (j + k)"
  by (simp add: ring_index_def mod_add_left_eq add.assoc)

lemma ring_wf_pos: "ring_wf r \<Longrightarrow> 0 < unat (ring_num_slots r)"
  by (auto simp: ring_wf_def word_less_nat_alt)

lemma ring_advance_cur:
  assumes "netmap_ok H" and "i < ring_num_slots r"
  shows "unat (ring_cur (ring_advance H r i)) = ring_index r (unat i) 1"
  using ring_next_unat [OF assms] by (simp add: ring_advance_def Let_def)

lemma ring_advance_wf:
  assumes "netmap_ok H" and "ring_wf r" and "i < ring_num_slots r"
  shows "ring_wf (ring_advance H r i)"
  using assms ring_advance_cur [OF assms(1,3)] ring_index_less [OF ring_wf_pos [OF assms(2)], of "unat i" 1]
  by (simp add: ring_wf_def word_less_nat_alt)

lemma ring_avail_less: "ring_wf r \<Longrightarrow> ring_avail r < unat (ring_num_slots r)"
  using ring_wf_pos by (simp add: ring_avail_def)

lemma ring_avail_cases:
  assumes "ring_wf r"
  shows "ring_avail r = (if unat (ring_cur r) \<le> unat (ring_tail r)
    then unat (ring_tail r) - unat (ring_cur r)
    else unat (ring_tail r) + unat (ring_num_slots r) - unat (ring_cur r))"
proof (cases "unat (ring_cur r) \<le> unat (ring_tail r)")
  case True
  then have "unat (ring_tail r) + unat (ring_num_slots r) - unat (ring_cur r) =
      (unat (ring_tail r) - unat (ring_cur r)) + unat (ring_num_slots r)" by simp
  moreover have "(x + n) mod n = x" if "x < n" for x n :: nat
    using that by simp
  ultimately have "ring_avail r = unat (ring_tail r) - unat (ring_cur r)"
    unfolding ring_avail_def using assms by (simp only: ring_wf_def word_less_nat_alt less_imp_diff_less)
  with True show ?thesis by simp
next
  case False
  then have "unat (ring_tail r) + unat (ring_num_slots r) - unat (ring_cur r) < unat (ring_num_slots r)"
    using assms unfolding ring_wf_def word_less_nat_alt by linarith
  with False show ?thesis by (simp add: ring_avail_def)
qed

lemma ring_empty_avail:
  assumes "netmap_ok H" and "ring_wf r"
  shows "h_nm_ring_empty H r \<longleftrightarrow> ring_avail r = 0"
proof -
  have "ring_cur r = ring_tail r \<longleftrightarrow> unat (ring_cur r) = unat (ring_tail r)"
    by (metis word_unat_eq_iff)
  with assms show ?thesis
    by (auto simp: netmap_ok_def ring_avail_cases ring_wf_def word_less_nat_alt)
qed

text \<open>A step uses one owned slot; a step on an empty ring claims all slots but one.\<close>

lemma ring_avail_advance:
  assumes "netmap_ok H" and "ring_wf r"
  shows "ring_avail (ring_advance H r (ring_cur r)) =
    (if ring_avail r = 0 then unat (ring_num_slots r) - 1 else ring_avail r - 1)"
proof -
  let ?r = "ring_advance H r (ring_cur r)" and ?n = "unat (ring_num_slots r)"
  have cur: "unat (ring_cur r) < ?n" "unat (ring_tail r) < ?n"
    using assms(2) by (simp_all add: ring_wf_def word_less_nat_alt)
  have wf: "ring_wf ?r"
    using assms by (intro ring_advance_wf) (simp_all add: ring_wf_def)
  have step: "unat (ring_cur ?r) = (if unat (ring_cur r) + 1 = ?n then 0 else unat (ring_cur r) + 1)"
    using ring_advance_cur [OF assms(1), of "ring_cur r" r] assms(2) cur
    by (auto simp: ring_index_def ring_wf_def)
  show ?thesis
    using ring_avail_cases [OF assms(2)] ring_avail_cases [OF wf] cur step by auto
qed

subsection \<open>The life of a port\<close>

text \<open>A port is opened at most once, used only while open, and closed.\<close>

datatype port_phase = PortClosed | PortOpen

definition port_proto :: "port_phase \<Rightarrow> uevent \<Rightarrow> port_phase option" where
  "port_proto p e = (case e of
     NmOpen n ok \<Rightarrow> if p = PortClosed then Some (if ok then PortOpen else PortClosed) else None
   | NmClose \<Rightarrow> if p = PortOpen then Some PortClosed else None
   | TxSync r \<Rightarrow> if p = PortOpen then Some p else None
   | RxSync r \<Rightarrow> if p = PortOpen then Some p else None
   | Poll r \<Rightarrow> if p = PortOpen then Some p else None
   | _ \<Rightarrow> Some p)"

lemma port_proto_simps [simp]:
  "port_proto p (NmOpen n ok) = (if p = PortClosed then Some (if ok then PortOpen else PortClosed) else None)"
  "port_proto p NmClose = (if p = PortOpen then Some PortClosed else None)"
  "port_proto p (TxSync r) = (if p = PortOpen then Some p else None)"
  "port_proto p (RxSync r) = (if p = PortOpen then Some p else None)"
  "port_proto p (Poll r) = (if p = PortOpen then Some p else None)"
  "port_proto p (Open x1 x2) = Some p"
  "port_proto p (Lseek x3 x4 x5) = Some p"
  "port_proto p (ReadEntry x6 x7 x8) = Some p"
  "port_proto p (Close x9) = Some p"
  "port_proto p (Mmap x10 x11 x12) = Some p"
  "port_proto p (Memset x13 x14 x15) = Some p"
  "port_proto p (StoreByte x16 x17) = Some p"
  "port_proto p (StoreFrame x18 x19) = Some p"
  "port_proto p (Usleep x20) = Some p"
  "port_proto p (UnvmeOpen x21 x22) = Some p"
  "port_proto p (UnvmeAlloc x23 x24 x25) = Some p"
  "port_proto p (UnvmeAllocPram x26 x27 x28) = Some p"
  "port_proto p (UnvmeRead x29 x30 x31 x32 x33 x34) = Some p"
  "port_proto p (UnvmeWrite x35 x36 x37 x38 x39 x40) = Some p"
  "port_proto p (UnvmeFree x41 x42) = Some p"
  "port_proto p (UnvmeClose x43) = Some p"
  "port_proto p (Dump x44 x45) = Some p"
  by (simp_all add: port_proto_def)

definition closed_after :: "outcome \<Rightarrow> port_phase \<Rightarrow> bool" where
  "closed_after r p \<longleftrightarrow> (\<forall>x. r = Returned x \<longrightarrow> p = PortClosed)"

lemma closed_after_simps [simp]:
  "closed_after (Returned x) p \<longleftrightarrow> p = PortClosed" "closed_after (Exited c) p" "closed_after (Faulted f) p"
  "closed_after Unfinished p"
  by (auto simp: closed_after_def)

definition port_opens :: "uevent list \<Rightarrow> nat" where
  "port_opens evs = length (filter (\<lambda>e. \<exists>n. e = NmOpen n True) evs)"

definition port_closes :: "uevent list \<Rightarrow> nat" where
  "port_closes evs = length (filter (\<lambda>e. e = NmClose) evs)"

lemma port_proto_balance:
  "proto_run port_proto p evs = Some q \<Longrightarrow> of_bool (p = PortOpen) + port_opens evs = of_bool (q = PortOpen) + port_closes evs"
proof (induction evs arbitrary: p)
  case (Cons e es)
  then obtain m where m: "port_proto p e = Some m" "proto_run port_proto m es = Some q"
    by (auto split: option.splits)
  with Cons.IH have "of_bool (m = PortOpen) + port_opens es = of_bool (q = PortOpen) + port_closes es" by blast
  with m(1) show ?case
    by (cases e) (auto simp: port_proto_def port_opens_def port_closes_def split: if_splits)
qed (simp add: port_opens_def port_closes_def)

text \<open>What every tool on netmap promises, and what follows for its runs.\<close>

locale netmap_client =
  fixes run :: "'i \<Rightarrow> (uevent, outcome) io"
  assumes closes: "obeys port_proto PortClosed (run i) closed_after"
begin

lemma returns_closed:
  assumes "run_state (run i) h = (Returned x, h @ evs)"
  shows "port_opens evs = port_closes evs"
  using obeys_run [OF closes assms] port_proto_balance [of PortClosed evs] by auto

lemma closed_at_most_opened:
  assumes "run_state (run i) h = (r, h @ evs)"
  shows "port_closes evs \<le> port_opens evs"
  using obeys_run [OF closes assms] port_proto_balance [of PortClosed evs] by auto

end

subsection \<open>A kernel that transmits\<close>

lemma ring_two_slots:
  assumes "ring_wf r" and "ring_cur r \<noteq> ring_tail r"
  shows "1 < unat (ring_num_slots r)"
proof -
  have "unat (ring_cur r) \<noteq> unat (ring_tail r)" using assms(2) by (metis word_unat_eq_iff)
  with assms(1) show ?thesis by (auto simp: ring_wf_def word_less_nat_alt)
qed

text \<open>The synchronisations of the transmit rings in a trace.\<close>

definition txsyncs :: "uevent list \<Rightarrow> nat" where
  "txsyncs evs = length (filter (\<lambda>e. \<exists>r. e = TxSync r) evs)"

text \<open>A kernel that always gives slots back.\<close>

definition tx_ready :: "port \<Rightarrow> bool" where
  "tx_ready P \<longleftrightarrow> (\<exists>txring rest. port_tx_rings P = txring # rest \<and> ring_wf txring \<and>
     ring_cur txring \<noteq> ring_tail txring)"

definition txsync_serves :: "host \<Rightarrow> bool" where
  "txsync_serves H \<longleftrightarrow> (\<forall>h P txring rest. port_tx_rings P = txring # rest \<longrightarrow> ring_wf txring \<longrightarrow>
     1 < unat (ring_num_slots txring) \<longrightarrow> 0 \<le> sint (fst (h_txsync H h P)) \<and> tx_ready (snd (h_txsync H h P)))"

lemma demo_ring_wf: "ring_wf demo_ring" "ring_avail demo_ring = 3"
  by (simp_all add: ring_wf_def demo_ring_def ring_avail_def)

lemma demo_port_ready: "tx_ready demo_port"
  using demo_ring_wf(1) by (auto simp: tx_ready_def demo_port_def demo_ring_def)

lemma demo_txsync_serves: "txsync_serves demo_host"
proof -
  have ready: "tx_ready (demo_txsync P)"
    if P: "port_tx_rings P = txring # rest" "ring_wf txring" "1 < unat (ring_num_slots txring)" for P txring rest
  proof -
    let ?t = "if ring_cur txring = 0 then ring_num_slots txring - 1 else ring_cur txring - 1"
    have "?t < ring_num_slots txring \<and> ring_cur txring \<noteq> ?t"
    proof (cases "ring_cur txring = 0")
      case True
      have "unat (ring_num_slots txring - 1) = unat (ring_num_slots txring) - 1"
        using P(3) by (intro unat_minus_1) simp
      with True P(3) show ?thesis by (auto simp: word_less_nat_alt dest: arg_cong [of _ _ unat])
    next
      case False
      then have "0 < unat (ring_cur txring)" by (simp add: unat_gt_0)
      then have "unat (ring_cur txring - 1) = unat (ring_cur txring) - 1"
        by (rule unat_minus_1)
      with False P(2) show ?thesis by (auto simp: ring_wf_def word_less_nat_alt)
    qed
    with P show ?thesis by (auto simp: demo_txsync_def tx_ready_def ring_wf_def)
  qed
  then show ?thesis by (auto simp: txsync_serves_def demo_host_def)
qed

end
