(* ===== verification/Phys_Addr.thy ===== *)
theory Phys_Addr
  imports Netmap_Ring
begin

section \<open>Physical addresses\<close>

text \<open>
  \<open>phy_addr\<close> (the same function in userland-driver/tools/recv-to-pram.c and xmit-from-pram.c),
  which reads the page frame of a virtual address from /proc/self/pagemap and ends the program
  when it cannot.
\<close>

subsection \<open>phy\_addr\<close>

definition PAGEMAP_PFN :: u64 where
  "PAGEMAP_PFN = 0x7fffffffffffff"

definition phy_addr :: "host \<Rightarrow> ptr \<Rightarrow> (uevent, outcome + u64) io" where
  "phy_addr H virt = do {
     fd \<leftarrow> ask (\<lambda>h. h_open H h ''/proc/self/pagemap'') (\<lambda>r. Open ''/proc/self/pagemap'' r);
     if sint fd < 0 then State_Monad.return (Inl (Exited 1))
     else do {
       let pagesize = h_pagesize H;
       let off = virt div pagesize * 8;
       ret \<leftarrow> ask (\<lambda>h. h_lseek H h fd off) (\<lambda>r. Lseek fd off r);
       if sint ret < 0 then State_Monad.return (Inl (Exited 1))
       else do {
         (rc, entry) \<leftarrow> ask (\<lambda>h. h_read_entry H h fd) (\<lambda>(rc, entry). ReadEntry fd rc entry);
         if sint rc < 1 \<or> entry = 0 then State_Monad.return (Inl (Exited 1))
         else do {
           emit (Close fd);
           State_Monad.return (Inr ((entry AND PAGEMAP_PFN) * pagesize + virt mod pagesize))
         }
       }
     }
   }"

text \<open>The files a trace opens and closes; what \<open>phy_addr\<close> leaves open.\<close>

fun open_files :: "s32 list \<Rightarrow> uevent \<Rightarrow> s32 list option" where
  "open_files fds (Open f fd) = Some (if sint fd < 0 then fds else fd # fds)"
| "open_files fds (Close fd) = (if fd \<in> set fds then Some (remove1 fd fds) else None)"
| "open_files fds (Lseek fd off r) = (if fd \<in> set fds then Some fds else None)"
| "open_files fds (ReadEntry fd rc x) = (if fd \<in> set fds then Some fds else None)"
| "open_files fds e = Some fds"

lemma phy_addr_files:
  "obeys open_files fds (phy_addr H v) (\<lambda>r fds'. \<forall>a. r = Inr a \<longrightarrow> fds' = fds)"
  unfolding phy_addr_def
  by (auto simp: obeys_simps Let_def split: prod.splits intro!: obeys_bind)

fun entry_item :: "uevent \<Rightarrow> (s64 + u64) list" where
  "entry_item (Lseek fd off r) = [Inl off]"
| "entry_item (ReadEntry fd rc x) = [Inr x]"
| "entry_item e = []"

lemma phy_addr_entry:
  "obeys (collect entry_item) [] (phy_addr H v) (\<lambda>r xs. case r of
     Inl x \<Rightarrow> x = Exited 1
   | Inr a \<Rightarrow> \<exists>entry. xs = [Inl (v div h_pagesize H * 8), Inr entry] \<and> entry \<noteq> 0 \<and>
       a = (entry AND PAGEMAP_PFN) * h_pagesize H + v mod h_pagesize H)"
  unfolding phy_addr_def
  by (auto simp: obeys_simps Let_def collect_def split: prod.splits intro!: obeys_bind)

lemma phy_addr_port: "obeys port_proto p (phy_addr H v) (\<lambda>r q. q = p \<and> (\<forall>x. r = Inl x \<longrightarrow> x = Exited 1))"
  unfolding phy_addr_def
  by (auto simp: obeys_simps port_proto_def Let_def split: prod.splits intro!: obeys_bind)

lemma phy_addr_not_unfinished: "fst (run_state (phy_addr H v) h) \<noteq> Inl Unfinished"
proof (cases "run_state (phy_addr H v) h")
  case (Pair r h')
  obtain evs where "h' = h @ evs" using obeys_extends [OF phy_addr_entry Pair] by blast
  with Pair have "run_state (phy_addr H v) h = (r, h @ evs)" by simp
  then have "case r of Inl x \<Rightarrow> x = Exited 1 | Inr a \<Rightarrow> True"
    using obeys_collectD [OF phy_addr_entry] by (fastforce split: sum.splits)
  with Pair show ?thesis by (auto split: sum.splits)
qed


lemma demo_phy_addr:
  "run_state (phy_addr demo_host 0x7f0000001008) [] = (Inr 0x12345008,
     [] @ [Open ''/proc/self/pagemap'' 4, Lseek 4 0x3f80000008 0x3f80000008,
       ReadEntry 4 8 0x8000000000012345, Close 4])"
  by (simp add: phy_addr_def demo_host_def PAGEMAP_PFN_def Let_def)


text \<open>A page map that does not change.\<close>

definition page_map :: "host \<Rightarrow> (ptr \<Rightarrow> u64) \<Rightarrow> bool" where
  "page_map H f \<longleftrightarrow> (\<forall>h v. fst (run_state (phy_addr H v) h) = Inr (f v))"

lemma demo_page_map:
  "page_map demo_host (\<lambda>v. 0x12345000 + v mod 4096)"
proof -
  have "unat (v div 4096 * 8) < 2 ^ 63" for v :: u64
  proof -
    have "unat v < 2 ^ LENGTH(64)" by (rule unsigned_less)
    then have "unat (v div 4096) * 8 < 2 ^ 63" by (simp add: unat_div_distrib)
    then show ?thesis by (simp add: unat_word_ariths)
  qed
  then have "0 \<le> sint (v div 4096 * 8)" for v :: u64
    by (intro sint_of_small)
  then show ?thesis
    by (simp add: page_map_def phy_addr_def demo_host_def PAGEMAP_PFN_def Let_def linorder_not_less)
qed

end
