(* ===== verification/Xmit_Pram.thy ===== *)
theory Xmit_Pram
  imports Phys_Addr Packet
begin

section \<open>xmit-from-pram: sending one packet from p2p memory\<close>

text \<open>
  userland-driver/tools/xmit-from-pram.c: the options, the batch that points slots of the
  transmit ring at the packet, and \<open>main\<close>. The number of packets counted so far, \<open>n\<close>, is an
  \<open>int\<close>: a sum out of its range is a fault. \<open>ret\<close> is not initialised in the source, so it starts as
  None. The loop is given fuel; \<open>Unfinished\<close> is what it returns when that is used up.
\<close>

subsection \<open>Options\<close>

text \<open>\<open>struct body\<close> and the local variables of \<open>main\<close> the options set.\<close>

record xmit_opts = body +
  xo_pktlen :: s32
  xo_no_write :: bool
  xo_batch :: s32

definition xmit_opts_init :: xmit_opts where
  "xmit_opts_init = body.extend (zero_body\<lparr>body_batch_size := 1\<rparr>)
     (xmit_opts.fields 512 False 1)"

lemma xmit_opts_init_simps [simp]:
  "body_nm_name xmit_opts_init = None" "body_count xmit_opts_init = 0" "body_usleep xmit_opts_init = 0"
  "xo_pktlen xmit_opts_init = 512" "\<not> xo_no_write xmit_opts_init" "xo_batch xmit_opts_init = 1"
  by (simp_all add: xmit_opts_init_def body.defs xmit_opts.defs zero_body_def)

definition xmit_optstring :: string where
  "xmit_optstring = ''i:c:u:l:nb:''"

text \<open>None when the usage is shown and -1 returned.\<close>

definition xmit_option :: "char \<times> string \<Rightarrow> xmit_opts \<Rightarrow> xmit_opts option" where
  "xmit_option oa o1 = (case oa of (ch, optarg) \<Rightarrow>
     if ch = CHR ''i'' then Some (o1\<lparr>body_nm_name := Some optarg\<rparr>)
     else if ch = CHR ''c'' then Some (o1\<lparr>body_count := atoi optarg\<rparr>)
     else if ch = CHR ''u'' then Some (o1\<lparr>body_usleep := atoi optarg\<rparr>)
     else if ch = CHR ''n'' then Some (o1\<lparr>xo_no_write := True\<rparr>)
     else if ch = CHR ''b'' then Some (o1\<lparr>xo_batch := atoi optarg\<rparr>)
     else if ch = CHR ''l'' then Some (o1\<lparr>xo_pktlen := atoi optarg\<rparr>)
     else None)"

fun xmit_options :: "(char \<times> string) list \<Rightarrow> xmit_opts \<Rightarrow> xmit_opts option" where
  "xmit_options [] o1 = Some o1"
| "xmit_options (oa # oas) o1 =
     (case xmit_option oa o1 of None \<Rightarrow> None | Some o2 \<Rightarrow> xmit_options oas o2)"

subsection \<open>The batch\<close>

text \<open>One round of the inner loop, on the slot at the cursor.\<close>

definition xmit_fill :: "host \<Rightarrow> s32 \<Rightarrow> u64 \<Rightarrow> slot \<Rightarrow> slot" where
  "xmit_fill H pktlen paddr s = s\<lparr>slot_len := ucast pktlen, slot_ptr := paddr,
     slot_flags := slot_flags s OR h_ns_phy_indirect H\<rparr>"

definition xmit_slot :: "host \<Rightarrow> s32 \<Rightarrow> u64 \<Rightarrow> ring \<Rightarrow> fault + ring" where
  "xmit_slot H pktlen paddr r = (let cur = ring_cur r in
     if unat cur < length (ring_slots r) then
       Inr (ring_advance H (r\<lparr>ring_slots := (ring_slots r)
         [unat cur := xmit_fill H pktlen paddr (ring_slots r ! unat cur)]\<rparr>) cur)
     else Inl OutOfBounds)"

fun xmit_batch :: "host \<Rightarrow> s32 \<Rightarrow> u64 \<Rightarrow> nat \<Rightarrow> ring \<Rightarrow> fault + ring" where
  "xmit_batch H pktlen paddr 0 r = Inr r"
| "xmit_batch H pktlen paddr (Suc k) r =
     (case xmit_slot H pktlen paddr r of Inl f \<Rightarrow> Inl f | Inr r' \<Rightarrow> xmit_batch H pktlen paddr k r')"

subsection \<open>The loop and main\<close>

text \<open>The label \<open>out\<close>.\<close>

definition xmit_out :: "s32 option \<Rightarrow> (uevent, outcome) io" where
  "xmit_out ret = do { emit NmClose; State_Monad.return (Returned ret) }"

fun xmit_loop ::
  "host \<Rightarrow> xmit_opts \<Rightarrow> u64 \<Rightarrow> nat \<Rightarrow> int \<Rightarrow> port \<Rightarrow> s32 option \<Rightarrow> (uevent, outcome) io" where
  "xmit_loop H o1 paddr 0 n P ret = State_Monad.return Unfinished"
| "xmit_loop H o1 paddr (Suc fuel) n P ret =
     (if n < sint (body_count o1) then
        (case port_tx_rings P of
           [] \<Rightarrow> State_Monad.return (Faulted OutOfBounds)
         | txring # rest \<Rightarrow>
             if h_nm_ring_empty H txring then xmit_out ret
             else (case xmit_batch H (xo_pktlen o1) paddr (nat (sint (xo_batch o1))) txring of
                 Inl f \<Rightarrow> State_Monad.return (Faulted f)
               | Inr txring' \<Rightarrow> do {
                   let b = max 0 (sint (xo_batch o1));
                   (r, P') \<leftarrow> ask (\<lambda>h. h_txsync H h (P\<lparr>port_tx_rings := txring' # rest\<rparr>)) (\<lambda>(r, _). TxSync r);
                   if sint r < 0 then xmit_out (Some r)
                   else do {
                     emit (Usleep (body_usleep o1));
                     if n + b < 2 ^ 31 then xmit_loop H o1 paddr fuel (n + b) P' (Some r)
                     else State_Monad.return (Faulted IntOverflow)
                   }
                 }))
      else xmit_out ret)"

text \<open>The bytes \<open>build_pkt\<close> puts into the mapping; None where it leaves it.\<close>

definition write_packet :: "host \<Rightarrow> ptr \<Rightarrow> s32 \<Rightarrow> (uevent, u8 list option) io" where
  "write_packet H buf pktlen =
     ask (\<lambda>h. xmit_build_pkt (h_big_endian H) (h_memory H h buf) pktlen)
       (\<lambda>r. StoreFrame buf (case r of None \<Rightarrow> [] | Some b \<Rightarrow> b))"

definition MAP_FAILED :: ptr where
  "MAP_FAILED = - 1"

definition xmit_main :: "host \<Rightarrow> nat \<Rightarrow> string list \<Rightarrow> (uevent, outcome) io" where
  "xmit_main H fuel argv =
     (case xmit_options (getopt_args xmit_optstring argv) xmit_opts_init of
        None \<Rightarrow> State_Monad.return (Returned (Some (- 1)))
      | Some o1 \<Rightarrow> do {
          nm \<leftarrow> ask (\<lambda>h. h_nm_open H h (body_nm_name o1)) (\<lambda>r. NmOpen (body_nm_name o1) (r \<noteq> None));
          (case nm of
             None \<Rightarrow> State_Monad.return (Returned (Some (- 1)))
           | Some nm_desc \<Rightarrow> do {
               fd \<leftarrow> ask (\<lambda>h. h_open H h ''/dev/p2pmmap'') (\<lambda>r. Open ''/dev/p2pmmap'' r);
               if sint fd < 0 then xmit_out (Some (- 1))
               else do {
                 buf \<leftarrow> ask (\<lambda>h. h_mmap H h 4096 fd) (\<lambda>r. Mmap 4096 fd r);
                 if buf = MAP_FAILED then xmit_out (Some (- 1))
                 else do {
                   pa \<leftarrow> phy_addr H buf;
                   (case pa of
                      Inl x \<Rightarrow> State_Monad.return x
                    | Inr paddr \<Rightarrow>
                        if xo_no_write o1 then xmit_loop H o1 paddr fuel 0 nm_desc None
                        else do {
                          w \<leftarrow> write_packet H buf (xo_pktlen o1);
                          (case w of
                             None \<Rightarrow> State_Monad.return (Faulted OutOfBounds)
                           | Some _ \<Rightarrow> xmit_loop H o1 paddr fuel 0 nm_desc None)
                        })
                 }
               }
             })
        })"

subsection \<open>The batch on the ring\<close>

lemma xmit_fill_idem [simp]:
  "xmit_fill H n a (xmit_fill H n a s) = xmit_fill H n a s"
  by (simp add: xmit_fill_def or.assoc)

lemma xmit_slot_ok:
  assumes "netmap_ok H" and "ring_wf r"
  shows "\<exists>r'. xmit_slot H n a r = Inr r' \<and> ring_wf r' \<and> ring_num_slots r' = ring_num_slots r \<and>
    ring_tail r' = ring_tail r \<and> unat (ring_cur r') = ring_index r (unat (ring_cur r)) 1 \<and>
    ring_slots r' = (ring_slots r)[unat (ring_cur r) := xmit_fill H n a (ring_slots r ! unat (ring_cur r))] \<and>
    ring_avail r' = (if ring_avail r = 0 then unat (ring_num_slots r) - 1 else ring_avail r - 1)"
proof -
  let ?s = "r\<lparr>ring_slots := (ring_slots r)
    [unat (ring_cur r) := xmit_fill H n a (ring_slots r ! unat (ring_cur r))]\<rparr>"
  have wf: "ring_wf ?s" and cur: "ring_cur ?s < ring_num_slots ?s"
    using assms(2) by (simp_all add: ring_wf_def)
  have "unat (ring_cur r) < length (ring_slots r)"
    using assms(2) by (simp add: ring_wf_def word_less_nat_alt)
  then have "xmit_slot H n a r = Inr (ring_advance H ?s (ring_cur ?s))"
    by (simp add: xmit_slot_def Let_def)
  then show ?thesis
    using ring_advance_wf [OF assms(1) wf cur] ring_advance_cur [OF assms(1) cur]
      ring_avail_advance [OF assms(1) wf]
    by (auto simp: ring_index_def ring_avail_def)
qed

lemma xmit_batch_ok:
  assumes "netmap_ok H" and "ring_wf r"
  shows "\<exists>r'. xmit_batch H n a k r = Inr r' \<and> ring_wf r' \<and> ring_num_slots r' = ring_num_slots r \<and>
    ring_tail r' = ring_tail r \<and> unat (ring_cur r') = ring_index r (unat (ring_cur r)) k \<and>
    (k \<le> ring_avail r \<longrightarrow> ring_avail r' = ring_avail r - k) \<and>
    (\<forall>j < length (ring_slots r). ring_slots r' ! j =
      (if \<exists>i < k. j = ring_index r (unat (ring_cur r)) i
       then xmit_fill H n a (ring_slots r ! j) else ring_slots r ! j))"
  using assms(2)
proof (induction k arbitrary: r)
  case 0
  then show ?case by (auto simp: ring_index_def ring_wf_def word_less_nat_alt)
next
  case (Suc k)
  let ?c = "unat (ring_cur r)" and ?n = "unat (ring_num_slots r)"
  obtain r1 where r1: "xmit_slot H n a r = Inr r1" "ring_wf r1" "ring_num_slots r1 = ring_num_slots r"
    "ring_tail r1 = ring_tail r" "unat (ring_cur r1) = ring_index r ?c 1"
    "ring_slots r1 = (ring_slots r)[?c := xmit_fill H n a (ring_slots r ! ?c)]"
    "ring_avail r1 = (if ring_avail r = 0 then ?n - 1 else ring_avail r - 1)"
    using xmit_slot_ok [OF assms(1) Suc.prems] by blast
  have idx: "ring_index r1 i j = ring_index r i j" for i j
    using r1(3) by (simp add: ring_index_def)
  obtain r2 where r2: "xmit_batch H n a k r1 = Inr r2" "ring_wf r2" "ring_num_slots r2 = ring_num_slots r1"
    "ring_tail r2 = ring_tail r1" "unat (ring_cur r2) = ring_index r1 (unat (ring_cur r1)) k"
    "k \<le> ring_avail r1 \<longrightarrow> ring_avail r2 = ring_avail r1 - k"
    "\<forall>j < length (ring_slots r1). ring_slots r2 ! j =
      (if \<exists>i < k. j = ring_index r1 (unat (ring_cur r1)) i
       then xmit_fill H n a (ring_slots r1 ! j) else ring_slots r1 ! j)"
    using Suc.IH [OF r1(2)] by blast
  have cur: "ring_index r1 (unat (ring_cur r1)) i = ring_index r ?c (Suc i)" for i
    using idx r1(5) by (simp add: ring_index_step)
  have len: "?c < length (ring_slots r)"
    using Suc.prems by (simp add: ring_wf_def word_less_nat_alt)
  have c: "ring_index r ?c 0 = ?c"
    using Suc.prems by (simp add: ring_index_def ring_wf_def word_less_nat_alt)
  have hit: "(\<exists>i < Suc k. j = ring_index r ?c i) \<longleftrightarrow> j = ?c \<or> (\<exists>i < k. j = ring_index r ?c (Suc i))" for j
    using c by (metis less_Suc_eq_0_disj)
  have slots: "\<forall>j < length (ring_slots r). ring_slots r2 ! j =
      (if \<exists>i < Suc k. j = ring_index r ?c i
       then xmit_fill H n a (ring_slots r ! j) else ring_slots r ! j)"
    using r2(7) len unfolding hit cur by (auto simp: r1(6) nth_list_update)
  show ?case
    using r1(1,3,4,7) r2(1-6) cur slots by (intro exI [of _ r2]) auto
qed

lemma ring_index_tail:
  assumes "ring_wf r"
  shows "unat (ring_tail r) = ring_index r (unat (ring_cur r)) (ring_avail r)"
  using assms ring_avail_cases [OF assms]
  by (auto simp: ring_index_def ring_wf_def word_less_nat_alt)

text \<open>
  C16. A batch fills consecutive slots from the cursor. As long as it is not larger than the
  number of slots the tool owns, it points exactly those slots at the packet, leaves every other
  slot alone and uses up as many; the emptiness test before the batch only makes sure of the first
  one, and a larger batch overwrites slots the kernel still owns, the one at \<open>tail\<close> first.
\<close>

theorem xmit_batch_ownership:
  assumes "netmap_ok H" and "ring_wf r"
  shows "\<exists>r'. xmit_batch H pktlen paddr k r = Inr r' \<and> ring_wf r' \<and>
    unat (ring_cur r') = (unat (ring_cur r) + k) mod unat (ring_num_slots r) \<and>
    (k \<le> ring_avail r \<longrightarrow> ring_avail r' = ring_avail r - k \<and>
      (\<forall>j < length (ring_slots r). ring_slots r' ! j =
        (if \<exists>i < k. j = (unat (ring_cur r) + i) mod unat (ring_num_slots r)
         then xmit_fill H pktlen paddr (ring_slots r ! j) else ring_slots r ! j))) \<and>
    (ring_avail r < k \<longrightarrow> ring_slots r' ! unat (ring_tail r) =
      xmit_fill H pktlen paddr (ring_slots r ! unat (ring_tail r)))"
proof -
  have "unat (ring_tail r) < length (ring_slots r)"
    using assms(2) by (simp add: ring_wf_def word_less_nat_alt)
  with xmit_batch_ok [OF assms, of pktlen paddr k] ring_index_tail [OF assms(2)] show ?thesis
    unfolding ring_index_def by metis
qed

theorem xmit_batch_ownership_witness:
  "\<exists>r'. xmit_batch demo_host 512 0x12345000 4 demo_ring = Inr r' \<and>
     slot_ptr (ring_slots r' ! 3) = 0x12345000 \<and> slot_len (ring_slots r' ! 3) = 512"
proof -
  have "unat (ring_tail demo_ring) = 3" by (simp add: demo_ring_def)
  with xmit_batch_ownership [OF demo_host_ok demo_ring_wf(1),
      where pktlen = 512 and paddr = "0x12345000" and k = 4] demo_ring_wf(2)
  show ?thesis by (auto simp: xmit_fill_def)
qed

subsection \<open>The loop\<close>

lemma xmit_loop_finishes:
  assumes "1 \<le> sint (xo_batch o1)"
  shows "nat (sint (body_count o1) - n) < fuel \<Longrightarrow>
    fst (run_state (xmit_loop H o1 paddr fuel n P ret) h) \<noteq> Unfinished"
proof (induction fuel arbitrary: n P ret h)
  case (Suc fuel)
  have step: "nat (sint (body_count o1) - (n + max 0 (sint (xo_batch o1)))) < fuel"
    if "n < sint (body_count o1)"
    using that assms Suc.prems by linarith
  show ?case
    using Suc.IH [OF step]
    by (auto simp: xmit_out_def Let_def split: list.splits sum.splits prod.splits)
qed simp


lemma demo_xmit_opts:
  "xmit_options (getopt_args xmit_optstring [''-c'', ''3'', ''-b2'']) xmit_opts_init =
     Some (xmit_opts_init\<lparr>body_count := 3, xo_batch := 2\<rparr>)"
  by (simp add: xmit_optstring_def xmit_option_def atoi_def strtol_def strtol_base_def is_space_def
      digit_val_def clamp_long_def)




subsection \<open>What is sent\<close>

text \<open>The rounds the loop makes from \<open>n\<close>.\<close>

function rounds :: "int \<Rightarrow> int \<Rightarrow> int \<Rightarrow> nat" where
  "rounds n count b = (if n < count \<and> 0 < b then Suc (rounds (n + b) count b) else 0)"
  by pat_completeness auto
termination
  by (relation "measure (\<lambda>(n, count, b). nat (count - n))") auto

declare rounds.simps [simp del]

lemma rounds_covers:
  assumes "0 < b" and "n \<le> count"
  shows "count \<le> n + b * int (rounds n count b) \<and> n + b * int (rounds n count b) < count + b"
  using assms
proof (induction n count b rule: rounds.induct)
  case (1 n count b)
  show ?case
  proof (cases "n < count")
    case False
    with 1(2,3) show ?thesis by (simp add: rounds.simps [of count count])
  next
    case True
    show ?thesis
    proof (cases "n + b \<le> count")
      case True
      with \<open>n < count\<close> 1 show ?thesis by (simp add: rounds.simps [of n] algebra_simps)
    next
      case False
      with \<open>n < count\<close> 1(2) show ?thesis
        by (simp add: rounds.simps [of n] rounds.simps [of "n + b"])
    qed
  qed
qed

lemma xmit_loop_sends:
  assumes "netmap_ok H" and "txsync_serves H" and "1 \<le> sint (xo_batch o1)"
    and "sint (body_count o1) + sint (xo_batch o1) \<le> 2 ^ 31"
  shows "tx_ready P \<Longrightarrow> nat (sint (body_count o1) - n) < fuel \<Longrightarrow>
    \<exists>r evs. run_state (xmit_loop H o1 paddr fuel n P ret) h = (Returned r, h @ evs) \<and>
      txsyncs evs = rounds n (sint (body_count o1)) (sint (xo_batch o1)) \<and>
      (ret = r \<or> (\<exists>x. r = Some x \<and> 0 \<le> sint x))"
proof (induction fuel arbitrary: n P ret h)
  case (Suc fuel)
  let ?b = "sint (xo_batch o1)" and ?c = "sint (body_count o1)"
  show ?case
  proof (cases "n < ?c")
    case False
    then show ?thesis
      by (auto simp: xmit_out_def txsyncs_def rounds.simps [of n])
  next
    case True
    from Suc.prems(1) obtain txring rest where ring: "port_tx_rings P = txring # rest" "ring_wf txring"
      "ring_cur txring \<noteq> ring_tail txring" unfolding tx_ready_def by blast
    have num: "1 < unat (ring_num_slots txring)" using ring(2,3) by (rule ring_two_slots)
    obtain txring' where batch: "xmit_batch H (xo_pktlen o1) paddr (nat ?b) txring = Inr txring'"
      "ring_wf txring'" "ring_num_slots txring' = ring_num_slots txring"
      using xmit_batch_ok [OF assms(1) ring(2)] by blast
    let ?P = "P\<lparr>port_tx_rings := txring' # rest\<rparr>"
    obtain r P' where sync: "h_txsync H h ?P = (r, P')" by (rule prod.exhaust)
    have "port_tx_rings ?P = txring' # rest" by simp
    then have "0 \<le> sint r" "tx_ready P'"
      using assms(2) batch(2,3) num sync unfolding txsync_serves_def by (metis fst_conv, metis snd_conv)
    moreover have "nat (?c - (n + ?b)) < fuel" "n + ?b < 2 ^ 31" "max 0 ?b = ?b"
      using True assms(3,4) Suc.prems(2) by linarith+
    moreover from Suc.IH [OF calculation(2,3), of "Some r" "h @ [TxSync r, Usleep (body_usleep o1)]"]
    obtain x evs where "run_state (xmit_loop H o1 paddr fuel (n + ?b) P' (Some r))
        (h @ [TxSync r, Usleep (body_usleep o1)]) = (Returned x, (h @ [TxSync r, Usleep (body_usleep o1)]) @ evs)"
      "txsyncs evs = rounds (n + ?b) ?c ?b" "Some r = x \<or> (\<exists>y. x = Some y \<and> 0 \<le> sint y)"
      by blast
    moreover have "\<not> h_nm_ring_empty H txring" using assms(1) ring(3) by (simp add: netmap_ok_def)
    moreover have "rounds n ?c ?b = Suc (rounds (n + ?b) ?c ?b)"
      using True assms(3) by (simp add: rounds.simps [of n])
    ultimately show ?thesis
      using True ring(1) batch(1) sync by (auto simp: Let_def txsyncs_def)
  qed
qed simp

text \<open>
  On a port whose kernel keeps giving slots back, the loop returns after synchronising the
  ring once per batch: the packets sent are the least multiple of the batch size that reaches the
  count, so up to one batch less one more than asked for.
\<close>

theorem xmit_loop_sends_count:
  assumes "netmap_ok H" and "txsync_serves H" and "tx_ready P" and "1 \<le> sint (xo_batch o1)"
    and "0 \<le> sint (body_count o1)" and "sint (body_count o1) + sint (xo_batch o1) \<le> 2 ^ 31"
    and "nat (sint (body_count o1)) < fuel"
  shows "\<exists>r evs. run_state (xmit_loop H o1 paddr fuel 0 P ret) h = (Returned r, h @ evs) \<and>
    sint (body_count o1) \<le> int (txsyncs evs) * sint (xo_batch o1) \<and>
    int (txsyncs evs) * sint (xo_batch o1) < sint (body_count o1) + sint (xo_batch o1)"
proof -
  obtain r evs where "run_state (xmit_loop H o1 paddr fuel 0 P ret) h = (Returned r, h @ evs)"
    "txsyncs evs = rounds 0 (sint (body_count o1)) (sint (xo_batch o1))"
    using xmit_loop_sends [OF assms(1,2,4,6,3), of 0 fuel paddr ret h] assms(7) by auto
  with rounds_covers [of "sint (xo_batch o1)" 0 "sint (body_count o1)"] assms(4,5) show ?thesis
    by (auto simp: mult.commute)
qed

theorem xmit_loop_sends_count_witness:
  "\<exists>r evs. run_state (xmit_loop demo_host (xmit_opts_init\<lparr>body_count := 3, xo_batch := 2\<rparr>) 0x12345000 5 0
     demo_port None) [] = (Returned r, evs) \<and> txsyncs evs = 2"
proof -
  let ?o = "xmit_opts_init\<lparr>body_count := 3, xo_batch := 2\<rparr>"
  have ready: "tx_ready demo_port"
    using demo_ring_wf(1) by (auto simp: tx_ready_def demo_port_def demo_ring_def)
  obtain r evs where "run_state (xmit_loop demo_host ?o 0x12345000 5 0 demo_port None) [] = (Returned r, [] @ evs)"
    "3 \<le> int (txsyncs evs) * 2" "int (txsyncs evs) * 2 < 5"
    using xmit_loop_sends_count [OF demo_host_ok demo_txsync_serves ready, where ?o1.0 = ?o and fuel = 5
        and paddr = "0x12345000" and ret = None and h = "[]"]
    by auto
  then show ?thesis by auto
qed

subsection \<open>The end of the program\<close>

lemma xmit_loop_port: "obeys port_proto PortOpen (xmit_loop H o1 paddr fuel n P ret) closed_after"
  by (induction H o1 paddr fuel n P ret rule: xmit_loop.induct)
    (auto simp: obeys_simps port_proto_def xmit_out_def Let_def split: list.splits sum.splits prod.splits intro!: obeys_bind)

lemma xmit_main_port: "obeys port_proto PortClosed (xmit_main H fuel argv) closed_after"
  unfolding xmit_main_def write_packet_def
  by (auto simp: obeys_simps port_proto_def xmit_out_def split: option.splits sum.splits
      intro!: obeys_bind obeys_mono [OF phy_addr_port] xmit_loop_port)

interpretation xmit_tool: netmap_client "\<lambda>argv. xmit_main H fuel argv" for H fuel
  by unfold_locales (rule xmit_main_port)

text \<open>
  Without a positive count (the option is not set by default) the program sends nothing,
  and never reports success: \<open>main\<close> returns -1 or, when everything it did succeeded, a variable
  that was never assigned.
\<close>

theorem xmit_without_count:
  assumes "xmit_options (getopt_args xmit_optstring argv) xmit_opts_init = Some o1"
    and "sint (body_count o1) \<le> 0" and "run_state (xmit_main H fuel argv) h = (Returned x, h @ evs)"
  shows "txsyncs evs = 0 \<and> (x = None \<or> x = Some (- 1))"
proof -
  let ?d = "watch (\<lambda>e. \<forall>r. e \<noteq> TxSync r)"
  have loop: "obeys ?d () (xmit_loop H o1 paddr fuel 0 P None) (\<lambda>r _. \<forall>x. r = Returned x \<longrightarrow> x = None)" for paddr P
    using assms(2)
    by (cases fuel) (auto simp: obeys_simps xmit_out_def watch_def Let_def intro!: obeys_bind)
  have phy: "obeys ?d () (phy_addr H v) (\<lambda>r _. \<forall>x. r = Inl x \<longrightarrow> x = Exited 1)" for v
    unfolding phy_addr_def
    by (auto simp: obeys_simps watch_def Let_def split: prod.splits intro!: obeys_bind)
  have main: "obeys ?d () (xmit_main H fuel argv) (\<lambda>r _. \<forall>x. r = Returned x \<longrightarrow> x = None \<or> x = Some (- 1))"
    unfolding xmit_main_def write_packet_def using assms(1)
    by (auto simp: obeys_simps xmit_out_def watch_def split: option.splits sum.splits
        intro!: obeys_bind obeys_mono [OF phy] obeys_mono [OF loop])
  from obeys_watchD [OF main assms(3)] show ?thesis
    by (auto simp: txsyncs_def filter_empty_conv)
qed

lemma demo_xmit_run:
  "\<exists>evs. run_state (xmit_main demo_host 1 [''-n'']) [] = (Returned None, [] @ evs)"
  by (simp add: xmit_main_def xmit_optstring_def xmit_option_def phy_addr_def
      demo_host_def xmit_out_def MAP_FAILED_def Let_def)

theorem xmit_without_count_witness:
  "\<exists>evs. run_state (xmit_main demo_host 1 [''-n'']) [] = (Returned None, evs) \<and> txsyncs evs = 0"
proof -
  have opts: "xmit_options (getopt_args xmit_optstring [''-n'']) xmit_opts_init =
      Some (xmit_opts_init\<lparr>xo_no_write := True\<rparr>)"
    by (simp add: xmit_optstring_def xmit_option_def)
  obtain evs where run: "run_state (xmit_main demo_host 1 [''-n'']) [] = (Returned None, [] @ evs)"
    using demo_xmit_run by blast
  with xmit_without_count [OF opts _ run] show ?thesis by simp
qed

end
