(* ===== verification/Xmit_Refinement.thy ===== *)
theory Xmit_Refinement
  imports Xmit_Pram
begin

section \<open>xmit-from-pram against its specification\<close>

text \<open>
  Two views of xmit-from-pram.c from above. The transmit ring is a queue of free slots, and a batch of
  \<open>main\<close> refines taking slots from the front of the queue and filling them. And the program as a whole, on a
  host that serves it: the packet is written into the mapping before the first transmission, and the number
  of transmissions follows from the options.
\<close>

subsection \<open>The ring as a queue\<close>

text \<open>The slots the tool owns, the next one first, and the slots' contents.\<close>

definition owned :: "ring \<Rightarrow> nat list" where
  "owned r = map (ring_index r (unat (ring_cur r))) [0 ..< ring_avail r]"

definition ring_queue :: "ring \<Rightarrow> nat list \<times> slot list" where
  "ring_queue r = (owned r, ring_slots r)"

text \<open>The specification: take \<open>k\<close> slots from the front, and apply \<open>f\<close> to each.\<close>

fun queue_fill :: "(slot \<Rightarrow> slot) \<Rightarrow> nat \<Rightarrow> nat list \<times> slot list \<Rightarrow> nat list \<times> slot list" where
  "queue_fill f (Suc k) (j # q, slots) = queue_fill f k (q, slots[j := f (slots ! j)])"
| "queue_fill f k qs = qs"

lemma owned_step:
  assumes "ring_wf r" and "0 < ring_avail r" and "ring_num_slots r' = ring_num_slots r"
    and "unat (ring_cur r') = ring_index r (unat (ring_cur r)) 1" and "ring_avail r' = ring_avail r - 1"
  shows "owned r = unat (ring_cur r) # owned r'"
proof -
  obtain m where m: "ring_avail r = Suc m" using assms(2) gr0_implies_Suc by blast
  have "unat (ring_cur r) < unat (ring_num_slots r)"
    using assms(1) by (simp add: ring_wf_def word_less_nat_alt)
  then have "ring_index r (unat (ring_cur r)) 0 = unat (ring_cur r)" by (simp add: ring_index_def)
  moreover have "ring_index r' (unat (ring_cur r')) i = ring_index r (unat (ring_cur r)) (Suc i)" for i
    using ring_index_step [of r "unat (ring_cur r)" 1 i] assms(3,4) by (simp add: ring_index_def)
  ultimately show ?thesis
    using assms(5) m by (simp add: owned_def map_upt_Suc del: upt_Suc)
qed

lemma owned_distinct:
  assumes "ring_wf r"
  shows "distinct (owned r)"
proof -
  let ?n = "unat (ring_num_slots r)" and ?c = "unat (ring_cur r)"
  have "i = j" if "i < ring_avail r" "j < ring_avail r" "(?c + i) mod ?n = (?c + j) mod ?n" for i j
  proof -
    have lt: "i < ?n" "j < ?n" using that(1,2) ring_avail_less [OF assms] by simp_all
    have "i mod ?n = j mod ?n"
      using that(3) by (simp add: nat_mod_eq_iff)
    with lt show ?thesis by simp
  qed
  then show ?thesis
    by (auto simp: owned_def distinct_map inj_on_def ring_index_def)
qed

text \<open>
  C15. A batch of xmit-from-pram refines the queue: on a well-formed ring, filling no more slots than
  the tool owns takes that many from the front of the queue, in order and each once, points them at the packet, and
  leaves a well-formed ring. Any sequence of such batches is thus a sequence of steps of the queue.
\<close>

theorem xmit_batch_refines_queue:
  assumes "netmap_ok H" and "ring_wf r" and "k \<le> ring_avail r"
  shows "\<exists>r'. xmit_batch H pktlen paddr k r = Inr r' \<and> ring_wf r' \<and>
    ring_queue r' = queue_fill (xmit_fill H pktlen paddr) k (ring_queue r) \<and>
    owned r' = drop k (owned r) \<and> distinct (owned r)"
proof -
  have "\<exists>r'. xmit_batch H pktlen paddr k r = Inr r' \<and> ring_wf r' \<and>
    ring_queue r' = queue_fill (xmit_fill H pktlen paddr) k (ring_queue r) \<and> owned r' = drop k (owned r)"
    using assms(2,3)
  proof (induction k arbitrary: r)
    case (Suc k)
    obtain r1 where r1: "xmit_slot H pktlen paddr r = Inr r1" "ring_wf r1"
      "ring_num_slots r1 = ring_num_slots r" "unat (ring_cur r1) = ring_index r (unat (ring_cur r)) 1"
      "ring_slots r1 = (ring_slots r)[unat (ring_cur r) :=
         xmit_fill H pktlen paddr (ring_slots r ! unat (ring_cur r))]"
      "ring_avail r1 = ring_avail r - 1"
      using xmit_slot_ok [OF assms(1) Suc.prems(1), of pktlen paddr] Suc.prems(2) by auto
    have "owned r = unat (ring_cur r) # owned r1"
      using owned_step [OF Suc.prems(1) _ r1(3,4,6)] Suc.prems(2) by simp
    with r1 Suc.IH [OF r1(2)] Suc.prems(2) show ?case
      by (auto simp: ring_queue_def)
  qed (simp add: ring_queue_def)
  with owned_distinct [OF assms(2)] show ?thesis by blast
qed

theorem xmit_batch_refines_queue_witness:
  "\<exists>r'. xmit_batch demo_host 512 0x12345000 2 demo_ring = Inr r' \<and> owned demo_ring = [0, 1, 2] \<and> owned r' = [2]"
proof -
  have "owned demo_ring = [0, 1, 2]"
    by (simp add: owned_def demo_ring_wf(2) upt_rec) (simp add: demo_ring_def ring_index_def)
  with xmit_batch_refines_queue [OF demo_host_ok demo_ring_wf(1), of 2 512 "0x12345000"] demo_ring_wf(2)
  show ?thesis by auto
qed

subsection \<open>The whole program\<close>

lemma txsyncs_append: "txsyncs (xs @ ys) = txsyncs xs + txsyncs ys"
  by (simp add: txsyncs_def)

lemma phy_addr_no_txsync: "obeys (watch (\<lambda>e. \<forall>r. e \<noteq> TxSync r)) () (phy_addr H v) (\<lambda>_ _. True)"
  unfolding phy_addr_def
  by (auto simp: obeys_simps watch_def Let_def split: prod.splits intro!: obeys_bind)

lemma page_map_run:
  assumes "page_map H f"
  shows "\<exists>evs. run_state (phy_addr H v) h = (Inr (f v), h @ evs) \<and> txsyncs evs = 0"
proof -
  obtain h' where run: "run_state (phy_addr H v) h = (Inr (f v), h')"
    using assms unfolding page_map_def by (metis prod.collapse)
  then obtain evs where "h' = h @ evs" using obeys_extends [OF phy_addr_entry run] by blast
  moreover have "txsyncs evs = 0"
    using obeys_watchD [OF phy_addr_no_txsync run [unfolded calculation]]
    by (auto simp: txsyncs_def filter_empty_conv)
  ultimately show ?thesis using run by blast
qed

text \<open>A host on which the calls before the loop succeed.\<close>

definition setup_served :: "host \<Rightarrow> bool" where
  "setup_served H \<longleftrightarrow> (\<forall>h n. \<exists>P. h_nm_open H h n = Some P \<and> tx_ready P) \<and> (\<forall>h p. 0 \<le> sint (h_open H h p)) \<and>
     (\<forall>h n fd. h_mmap H h n fd \<noteq> MAP_FAILED) \<and> (\<forall>h a. length (h_memory H h a) = 4096)"

text \<open>
  C22. On a host that serves it, xmit-from-pram does what its options say: it writes a frame of
  the packet length into the mapping, synchronises the ring as often as it takes to send at least the count in
  batches, at most one batch less one more, closes the port once and returns.
\<close>

theorem xmit_main_sends:
  assumes "xmit_options (getopt_args xmit_optstring argv) xmit_opts_init = Some o1" and "\<not> xo_no_write o1"
    and "42 \<le> sint (xo_pktlen o1)" and "sint (xo_pktlen o1) < 2 ^ 16 + 14"
    and "1 \<le> sint (xo_batch o1)" and "0 \<le> sint (body_count o1)"
    and "sint (body_count o1) + sint (xo_batch o1) \<le> 2 ^ 31" and "nat (sint (body_count o1)) < fuel"
    and "netmap_ok H" and "txsync_serves H" and "page_map H f" and "setup_served H"
  shows "\<exists>r evs as bs buf b fr. run_state (xmit_main H fuel argv) h = (Returned r, h @ evs) \<and>
    evs = as @ StoreFrame buf b # bs \<and> txsyncs as = 0 \<and>
    parse_frame b = Some fr \<and> 14 + ip_total fr = nat (sint (xo_pktlen o1)) \<and>
    sint (body_count o1) \<le> int (txsyncs evs) * sint (xo_batch o1) \<and>
    int (txsyncs evs) * sint (xo_batch o1) < sint (body_count o1) + sint (xo_batch o1) \<and>
    port_opens evs = port_closes evs"
proof -
  let ?e1 = "NmOpen (body_nm_name o1) True"
  obtain P where P: "h_nm_open H h (body_nm_name o1) = Some P" "tx_ready P"
    using assms(12) unfolding setup_served_def by blast
  define fd where "fd = h_open H (h @ [?e1]) ''/dev/p2pmmap''"
  define buf where "buf = h_mmap H (h @ [?e1, Open ''/dev/p2pmmap'' fd]) 4096 fd"
  let ?e2 = "[?e1, Open ''/dev/p2pmmap'' fd, Mmap 4096 fd buf]"
  have ok: "0 \<le> sint fd" "buf \<noteq> MAP_FAILED" "length (h_memory H h' buf) = 4096" for h'
    using assms(12) unfolding setup_served_def fd_def buf_def by blast+
  obtain e3 where phy: "run_state (phy_addr H buf) (h @ ?e2) = (Inr (f buf), (h @ ?e2) @ e3)" "txsyncs e3 = 0"
    using page_map_run [OF assms(11)] by blast
  let ?h = "(h @ ?e2) @ e3"
  obtain b where b: "xmit_build_pkt (h_big_endian H) (h_memory H ?h buf) (xo_pktlen o1) = Some b"
    using xmit.fits [of "h_memory H ?h buf"] ok(3) by force
  obtain fr where fr: "parse_frame b = Some fr" "14 + ip_total fr = nat (sint (xo_pktlen o1))"
    using xmit.build_parse [OF b] xmit_total(1) [OF assms(3,4)] by fastforce
  obtain r evs where loop: "run_state (xmit_loop H o1 (f buf) fuel 0 P None) (?h @ [StoreFrame buf b]) =
      (Returned r, (?h @ [StoreFrame buf b]) @ evs)"
    "txsyncs evs = rounds 0 (sint (body_count o1)) (sint (xo_batch o1))"
    using xmit_loop_sends [OF assms(9,10,5,7) P(2), of 0 fuel "f buf" None] assms(8) by fastforce
  let ?as = "?e2 @ e3"
  have run: "run_state (xmit_main H fuel argv) h = (Returned r, h @ ?as @ StoreFrame buf b # evs)"
    using assms(1,2) P(1) ok(1,2) phy(1) b loop(1)
    by (simp add: xmit_main_def write_packet_def fd_def [symmetric] buf_def [symmetric] linorder_not_less)
  have as: "txsyncs ?as = 0" using phy(2) by (simp add: txsyncs_def)
  then have "txsyncs (?as @ StoreFrame buf b # evs) = rounds 0 (sint (body_count o1)) (sint (xo_batch o1))"
    using loop(2) by (simp add: txsyncs_def)
  with rounds_covers [of "sint (xo_batch o1)" 0 "sint (body_count o1)"] assms(5,6)
  have "sint (body_count o1) \<le> int (txsyncs (?as @ StoreFrame buf b # evs)) * sint (xo_batch o1) \<and>
    int (txsyncs (?as @ StoreFrame buf b # evs)) * sint (xo_batch o1) < sint (body_count o1) + sint (xo_batch o1)"
    by (simp add: mult.commute)
  with run as fr xmit_tool.returns_closed [OF run] show ?thesis by blast
qed

theorem xmit_main_sends_witness:
  "\<exists>r evs. run_state (xmit_main demo_host 4 [''-c'', ''3'', ''-b2'']) [] = (Returned r, evs) \<and>
     txsyncs evs = 2 \<and> port_opens evs = port_closes evs"
proof -
  have served: "setup_served demo_host"
    using demo_port_ready by (simp add: setup_served_def demo_host_def MAP_FAILED_def)
  from xmit_main_sends [OF demo_xmit_opts _ _ _ _ _ _ _ demo_host_ok demo_txsync_serves demo_page_map served,
      of 4 "[]"]
  obtain r evs where "run_state (xmit_main demo_host 4 [''-c'', ''3'', ''-b2'']) [] = (Returned r, evs)"
    "3 \<le> int (txsyncs evs) * 2" "int (txsyncs evs) * 2 < 5" "port_opens evs = port_closes evs"
    by auto
  moreover from this(2,3) have "txsyncs evs = 2" by linarith
  ultimately show ?thesis by blast
qed

end
