(* ===== verification/Hexdump.thy ===== *)
theory Hexdump
  imports C_Library
begin

section \<open>The hex dump\<close>

text \<open>
  \<open>hexdump\<close>, of which load-and-xmit.c, xmit-from-pram.c, store-pkt.c, dump-nvme.c and read-pkt.c
  have the same copy and recv-to-pram.c one that prints another newline at the end. The model is
  the text printed, or None where the function reads beyond the buffer. An inverse, which skips
  blanks, shows that the text determines the bytes.
\<close>

definition newline :: string where
  "newline = [CHR 0x0A]"

text \<open>\<open>%02x\<close>\<close>

definition hex_char :: "nat \<Rightarrow> char" where
  "hex_char d = (if d < 10 then char_of (48 + d) else char_of (87 + d))"

definition show_02x :: "u8 \<Rightarrow> string" where
  "show_02x b = [hex_char (unat b div 16), hex_char (unat b mod 16)]"

text \<open>The loop from index \<open>n\<close>, with \<open>k\<close> bytes to go.\<close>

fun hexdump_loop :: "u8 list \<Rightarrow> nat \<Rightarrow> nat \<Rightarrow> string option" where
  "hexdump_loop p n 0 = Some []"
| "hexdump_loop p n (Suc k) =
     (if n < length p then
        (case hexdump_loop p (n + 1) k of
           None \<Rightarrow> None
         | Some rest \<Rightarrow> Some (show_02x (p ! n) @
             (if (n + 1) mod 2 = 0 then '' '' else []) @
             (if (n + 1) mod 32 = 0 then newline else []) @ rest))
      else None)"

definition hexdump :: "u8 list \<Rightarrow> s32 \<Rightarrow> string option" where
  "hexdump p len = (case hexdump_loop p 0 (nat (sint len)) of
     None \<Rightarrow> None
   | Some s \<Rightarrow> Some (''Hex dump'' @ newline @ s @ newline))"

definition recv_hexdump :: "u8 list \<Rightarrow> s32 \<Rightarrow> string option" where
  "recv_hexdump p len = (case hexdump_loop p 0 (nat (sint len)) of
     None \<Rightarrow> None
   | Some s \<Rightarrow> Some (''Hex dump'' @ newline @ s @ newline @ newline))"

subsection \<open>Reading a dump back\<close>

definition hex_digit :: "char \<Rightarrow> nat option" where
  "hex_digit c = (case digit_val c of None \<Rightarrow> None | Some d \<Rightarrow> if d < 16 then Some d else None)"

fun unhex :: "string \<Rightarrow> u8 list option" where
  "unhex [] = Some []"
| "unhex [c] = (if is_space c then Some [] else None)"
| "unhex (c # d # cs) =
     (if is_space c then unhex (d # cs)
      else (case (hex_digit c, hex_digit d, unhex cs) of
          (Some h, Some l, Some bs) \<Rightarrow> Some (of_nat (16 * h + l) # bs)
        | _ \<Rightarrow> None))"

lemma hex_digit_hex_char: "d < 16 \<Longrightarrow> hex_digit (hex_char d) = Some d"
  by (auto simp: hex_digit_def hex_char_def digit_val_def)

lemma hex_char_not_space: "d < 16 \<Longrightarrow> \<not> is_space (hex_char d)"
proof -
  have "is_space c \<Longrightarrow> (of_char c :: nat) \<le> 32" for c
    by (auto simp: is_space_def)
  moreover have "d < 16 \<Longrightarrow> 48 \<le> (of_char (hex_char d) :: nat)"
    by (auto simp: hex_char_def)
  ultimately show "d < 16 \<Longrightarrow> \<not> is_space (hex_char d)" by fastforce
qed

lemma unhex_show_02x: "unhex (show_02x b @ s) = map_option (\<lambda>bs. b # bs) (unhex s)"
proof -
  have "unat b < 2 ^ LENGTH(8)" by (rule unsigned_less)
  then have d: "unat b div 16 < 16" "unat b mod 16 < 16" by simp_all
  have "of_nat (16 * (unat b div 16) + unat b mod 16) = b" by simp
  with d show ?thesis
    by (simp add: show_02x_def hex_digit_hex_char hex_char_not_space split: option.splits)
qed

lemma unhex_space: "is_space c \<Longrightarrow> unhex (c # s) = unhex s"
  by (cases s) simp_all

lemma unhex_blanks [simp]: "unhex (newline @ s) = unhex s" "unhex (CHR '' '' # s) = unhex s"
  by (simp_all add: unhex_space newline_def is_space_def)

lemma hexdump_loop_some:
  "n + k \<le> length p \<Longrightarrow> \<exists>s. hexdump_loop p n k = Some s \<and>
     (\<forall>t. unhex t = Some [] \<longrightarrow> unhex (s @ t) = Some (take k (drop n p)))"
proof (induction k arbitrary: n)
  case (Suc k)
  from Suc.prems have n: "n < length p" "Suc n + k \<le> length p" by simp_all
  from Suc.IH [OF n(2)] obtain s where s: "hexdump_loop p (Suc n) k = Some s"
    "\<forall>t. unhex t = Some [] \<longrightarrow> unhex (s @ t) = Some (take k (drop (Suc n) p))" by blast
  have "take (Suc k) (drop n p) = p ! n # take k (drop (Suc n) p)"
    using n(1) by (simp add: Cons_nth_drop_Suc [symmetric])
  with s n(1) show ?case
    by (auto simp: unhex_show_02x)
qed simp

lemma hexdump_loop_none: "length p < n + k \<Longrightarrow> n \<le> length p \<Longrightarrow> hexdump_loop p n k = None"
  by (induction k arbitrary: n) auto

lemma hexdump_loop_length:
  "hexdump_loop p n k = Some s \<Longrightarrow>
     length s + n div 2 + n div 32 = 2 * k + (n + k) div 2 + (n + k) div 32"
proof (induction k arbitrary: n s)
  case (Suc k)
  have step: "Suc n div m = n div m + (if Suc n mod m = 0 then 1 else 0)" for m
    by (simp add: div_Suc)
  from Suc.prems obtain r where r: "hexdump_loop p (Suc n) k = Some r"
    "s = show_02x (p ! n) @ (if Suc n mod 2 = 0 then '' '' else []) @
      (if Suc n mod 32 = 0 then newline else []) @ r"
    by (auto split: option.splits if_splits)
  have "length s = 2 + (if Suc n mod 2 = 0 then 1 else 0) + (if Suc n mod 32 = 0 then 1 else 0) + length r"
    unfolding r(2) by (simp add: show_02x_def newline_def)
  with Suc.IH [OF r(1)] step [of 2] step [of 32] show ?case
    by simp
qed simp

text \<open>
  C30. A hex dump shows the bytes it is asked for and nothing else: within the buffer, the text
  can be read back to exactly the first \<open>len\<close> bytes, in both variants, and has two digits a byte, a
  blank every two bytes and a line break every 32; with a larger \<open>len\<close> the function reads beyond the
  buffer, and a negative one prints no byte.
\<close>

theorem hexdump_roundtrip:
  "(nat (sint len) \<le> length p \<longrightarrow> (\<exists>s. hexdump p len = Some s \<and> recv_hexdump p len = Some (s @ newline) \<and>
      take 9 s = ''Hex dump'' @ newline \<and> unhex (drop 9 s) = Some (take (nat (sint len)) p) \<and>
      length s = 10 + 2 * nat (sint len) + nat (sint len) div 2 + nat (sint len) div 32)) \<and>
   (length p < nat (sint len) \<longrightarrow> hexdump p len = None \<and> recv_hexdump p len = None)"
proof (intro conjI impI)
  let ?n = "nat (sint len)"
  assume "?n \<le> length p"
  then obtain s where s: "hexdump_loop p 0 ?n = Some s" "unhex (s @ newline) = Some (take ?n p)"
    using hexdump_loop_some [of 0 ?n p] unhex_blanks(1) [of "[]"] by auto
  have h: "hexdump p len = Some (''Hex dump'' @ newline @ s @ newline)"
    and r: "recv_hexdump p len = Some ((''Hex dump'' @ newline @ s @ newline) @ newline)"
    using s(1) by (simp_all add: hexdump_def recv_hexdump_def)
  have "length s = 2 * ?n + ?n div 2 + ?n div 32"
    using hexdump_loop_length [OF s(1)] by simp
  then have "length (''Hex dump'' @ newline @ s @ newline) = 10 + 2 * ?n + ?n div 2 + ?n div 32"
    by (simp add: newline_def)
  moreover have "unhex (drop 9 (''Hex dump'' @ newline @ s @ newline)) = Some (take ?n p)"
    using s(2) by (simp add: newline_def)
  moreover have "take 9 (''Hex dump'' @ newline @ s @ newline) = ''Hex dump'' @ newline"
    by (simp add: newline_def)
  ultimately show "\<exists>s. hexdump p len = Some s \<and> recv_hexdump p len = Some (s @ newline) \<and>
      take 9 s = ''Hex dump'' @ newline \<and> unhex (drop 9 s) = Some (take ?n p) \<and>
      length s = 10 + 2 * ?n + ?n div 2 + ?n div 32"
    using h r by blast
next
  assume "length p < nat (sint len)"
  then have "hexdump_loop p 0 (nat (sint len)) = None" by (simp add: hexdump_loop_none)
  then show "hexdump p len = None" "recv_hexdump p len = None"
    by (simp_all add: hexdump_def recv_hexdump_def)
qed

theorem hexdump_roundtrip_witness:
  "\<exists>s. hexdump [0xab, 0x01, 0x7f] 2 = Some s \<and> unhex (drop 9 s) = Some [0xab, 0x01]"
  using hexdump_roundtrip [of 2 "[0xab, 0x01, 0x7f]"] by (auto simp: numeral_2_eq_2)

lemma hexdump_reads_back:
  assumes "hexdump p len = Some t"
  shows "nat (sint len) \<le> length p \<and> unhex (drop 9 t) = Some (take (nat (sint len)) p)"
proof -
  let ?n = "nat (sint len)"
  have le: "?n \<le> length p"
    using assms hexdump_loop_none [of p 0 ?n] by (cases "?n \<le> length p") (auto simp: hexdump_def)
  then obtain s where s: "hexdump_loop p 0 ?n = Some s" "unhex (s @ newline) = Some (take ?n p)"
    using hexdump_loop_some [of 0 ?n p] unhex_blanks(1) [of "[]"] by auto
  then have "t = ''Hex dump'' @ newline @ s @ newline" using assms by (simp add: hexdump_def)
  with s(2) le show ?thesis by (simp add: newline_def)
qed

subsection \<open>The layout\<close>

text \<open>
  The layout as one would describe it: words of two bytes, each followed by a blank; lines of 32 bytes,
  each followed by a line break; what is left over at the end.
\<close>

fun dump_words :: "u8 list \<Rightarrow> string" where
  "dump_words [] = []"
| "dump_words [a] = show_02x a"
| "dump_words (a # b # bs) = show_02x a @ show_02x b @ '' '' @ dump_words bs"

function dump_lines :: "u8 list \<Rightarrow> string" where
  "dump_lines bs =
     (if length bs < 32 then dump_words bs
      else dump_words (take 32 bs) @ newline @ dump_lines (drop 32 bs))"
  by pat_completeness auto
termination by (relation "measure length") auto

declare dump_lines.simps [simp del]

definition dump_item :: "u8 list \<Rightarrow> nat \<Rightarrow> string" where
  "dump_item p i = show_02x (p ! i) @ (if Suc i mod 2 = 0 then '' '' else [])"

lemma hexdump_loop_items:
  "n + k \<le> length p \<Longrightarrow> hexdump_loop p n k = Some (concat (map
     (\<lambda>i. dump_item p i @ (if Suc i mod 32 = 0 then newline else [])) [n ..< n + k]))"
proof (induction k arbitrary: n)
  case (Suc k)
  then have "n < length p" "Suc n + k \<le> length p" by simp_all
  moreover have "[n ..< n + Suc k] = n # [Suc n ..< Suc n + k]" by (simp add: upt_rec)
  ultimately show ?case
    using Suc.IH [of "Suc n"] by (simp add: dump_item_def)
qed simp

lemma take_two:
  assumes "Suc (Suc n) \<le> length p"
  shows "take (Suc (Suc k)) (drop n p) = p ! n # p ! Suc n # take k (drop (Suc (Suc n)) p)"
  using assms by (metis Cons_nth_drop_Suc Suc_le_lessD Suc_lessD take_Suc_Cons)

lemma items_words:
  "even n \<Longrightarrow> n + k \<le> length p \<Longrightarrow> concat (map (dump_item p) [n ..< n + k]) = dump_words (take k (drop n p))"
proof (induction k arbitrary: n rule: nat_less_induct)
  case (1 k)
  consider "k = 0" | "k = 1" | j where "k = Suc (Suc j)"
    by (metis One_nat_def not0_implies_Suc)
  then show ?case
  proof cases
    case 2
    with 1(2,3) have "take 1 (drop n p) = [p ! n]" "Suc n mod 2 = 1"
      by (simp_all add: take_Suc_conv_app_nth hd_drop_conv_nth take_Suc even_iff_mod_2_eq_zero mod_Suc)
    with 2 show ?thesis by (simp add: dump_item_def)
  next
    case 3
    have "[n ..< n + k] = n # Suc n # [Suc (Suc n) ..< Suc (Suc n) + j]"
      using 3 by (simp add: upt_rec)
    moreover have "Suc n mod 2 = 1" "Suc (Suc n) mod 2 = 0"
      using 1(2) by (auto simp: even_iff_mod_2_eq_zero mod_Suc)
    moreover have "concat (map (dump_item p) [Suc (Suc n) ..< Suc (Suc n) + j]) =
        dump_words (take j (drop (Suc (Suc n)) p))"
      by (rule 1(1) [rule_format]) (use 1(2,3) 3 in simp_all)
    moreover have "dump_item p n = show_02x (p ! n)" "dump_item p (Suc n) = show_02x (p ! Suc n) @ '' ''"
      using calculation(2,3) by (simp_all add: dump_item_def)
    moreover have "take k (drop n p) = p ! n # p ! Suc n # take j (drop (Suc (Suc n)) p)"
      unfolding 3 using 1(3) 3 by (intro take_two) simp
    ultimately show ?thesis by (simp only: list.map concat.simps dump_words.simps append_assoc)
  qed simp
qed

lemma items_lines:
  "n mod 32 = 0 \<Longrightarrow> n + k \<le> length p \<Longrightarrow>
     concat (map (\<lambda>i. dump_item p i @ (if Suc i mod 32 = 0 then newline else [])) [n ..< n + k]) =
     dump_lines (take k (drop n p))"
proof (induction k arbitrary: n rule: nat_less_induct)
  case (1 k)
  let ?item = "\<lambda>i. dump_item p i @ (if Suc i mod 32 = 0 then newline else [])"
  from 1(2) obtain m where m: "n = 32 * m" by (auto simp: mod_eq_0_iff_dvd)
  then have even: "even n" by simp
  have short: "map ?item [n ..< n + j] = map (dump_item p) [n ..< n + j]" if "j < 32" for j
  proof (rule map_cong [OF refl])
    fix i assume "i \<in> set [n ..< n + j]"
    with that obtain d where "i = n + d" "d < 31" by (auto simp: nat_le_iff_add)
    then have "Suc i mod 32 = Suc d" by (simp add: m)
    then show "?item i = dump_item p i" by simp
  qed
  show ?case
  proof (cases "k < 32")
    case True
    then show ?thesis
      using 1(3) by (simp add: short [OF True] items_words [OF even] dump_lines.simps [of "take k _"] del: map_eq_conv)
  next
    case False
    then obtain j where j: "k = 32 + j" by (metis le_add_diff_inverse not_less)
    have "[n ..< n + k] = [n ..< n + 31] @ (n + 31) # [n + 32 ..< (n + 32) + j]"
    proof -
      have "[n ..< n + k] = [n ..< n + 31] @ [n + 31 ..< n + k]"
        using upt_add_eq_append [of n "n + 31" "Suc j"] by (simp only: j add.assoc) simp
      moreover have "[n + 31 ..< n + k] = (n + 31) # [n + 32 ..< (n + 32) + j]"
        by (subst upt_conv_Cons) (simp_all add: j add.assoc add.commute [of n])
      ultimately show ?thesis by simp
    qed
    moreover have "Suc (n + 31) mod 32 = 0" by (simp add: m)
    moreover have "concat (map ?item [n + 32 ..< (n + 32) + j]) = dump_lines (take j (drop (n + 32) p))"
      using 1 j by (auto simp: m)
    moreover have "concat (map (dump_item p) [n ..< n + 31]) @ dump_item p (n + 31) = dump_words (take 32 (drop n p))"
      using items_words [OF even, of 32 p] 1(3) j by (simp add: upt_rec_numeral numeral_eq_Suc)
    moreover have "dump_lines (take k (drop n p)) =
        dump_words (take 32 (drop n p)) @ newline @ dump_lines (take j (drop (n + 32) p))"
      using 1(3) by (subst dump_lines.simps) (simp add: j drop_take add.commute)
    ultimately show ?thesis by (simp add: short)
  qed
qed

text \<open>
  C29. \<open>hexdump\<close> prints the layout: the heading, then the first \<open>len\<close> bytes in lines of 32 and
  words of two, then a line break; recv-to-pram's version prints one more. Both read beyond the buffer exactly
  when it is shorter than \<open>len\<close>.
\<close>

theorem hexdump_layout:
  "hexdump p len = (if nat (sint len) \<le> length p
     then Some (''Hex dump'' @ newline @ dump_lines (take (nat (sint len)) p) @ newline) else None) \<and>
   recv_hexdump p len = map_option (\<lambda>s. s @ newline) (hexdump p len)"
proof (cases "nat (sint len) \<le> length p")
  case True
  then have "hexdump_loop p 0 (nat (sint len)) = Some (dump_lines (take (nat (sint len)) p))"
    using hexdump_loop_items [of 0 "nat (sint len)" p] items_lines [of 0 "nat (sint len)" p] by simp
  then show ?thesis using True by (simp add: hexdump_def recv_hexdump_def)
next
  case False
  then show ?thesis
    using hexdump_loop_none [of p 0 "nat (sint len)"] by (simp add: hexdump_def recv_hexdump_def)
qed

end
