(* ===== verification/Recv_Pram.thy ===== *)
theory Recv_Pram
  imports Phys_Addr Hexdump
begin

section \<open>recv-to-pram: receiving into p2p memory\<close>

text \<open>
  userland-driver/tools/recv-to-pram.c: one mapping of 64 MB holds a buffer of 2048 bytes for every
  slot of every receive ring (\<open>nmslot_to_buf\<close>); \<open>init_nm_rx_ring_for_phy\<close> writes the physical
  addresses of the buffers into the slots; a flush makes the driver take them; then the program
  shows every packet it receives, for ever. The two unbounded loops are given fuel: the number of
  rounds of the receive loop, and within one the number of slots drained from a ring.
\<close>

subsection \<open>The buffers\<close>

definition in_int :: "int \<Rightarrow> bool" where
  "in_int v \<longleftrightarrow> - (2 ^ 31) \<le> v \<and> v < 2 ^ 31"

text \<open>The sums and products are of type \<open>int\<close>; None where one overflows.\<close>

definition nmslot_to_buf :: "ptr \<Rightarrow> s32 \<Rightarrow> s32 \<Rightarrow> s32 \<Rightarrow> ptr option" where
  "nmslot_to_buf base ri idx slot_num =
     (let row = sint slot_num * 2048; a = row * sint ri; b = 2048 * sint idx in
      if in_int row \<and> in_int a \<and> in_int b then Some (base + word_of_int a + word_of_int b) else None)"

definition PRAM_SIZE :: u64 where
  "PRAM_SIZE = 67108864"

subsection \<open>Initialising the rings\<close>

fun init_slots ::
  "host \<Rightarrow> ptr \<Rightarrow> nat \<Rightarrow> u32 \<Rightarrow> nat list \<Rightarrow> slot list \<Rightarrow> (uevent, outcome + slot list) io" where
  "init_slots H base ri num [] slots = State_Monad.return (Inr slots)"
| "init_slots H base ri num (idx # is) slots =
     (case nmslot_to_buf base (of_nat ri) (of_nat idx) num of
        None \<Rightarrow> State_Monad.return (Inl (Faulted IntOverflow))
      | Some buf \<Rightarrow>
          if idx < length slots then do {
            pa \<leftarrow> phy_addr H buf;
            (case pa of
               Inl x \<Rightarrow> State_Monad.return (Inl x)
             | Inr a \<Rightarrow> init_slots H base ri num is
                 (slots[idx := (slots ! idx)\<lparr>slot_flags := slot_flags (slots ! idx) OR h_ns_phy_indirect H,
                    slot_ptr := a\<rparr>]))
          }
          else State_Monad.return (Inl (Faulted OutOfBounds)))"

definition put_rx_ring :: "port \<Rightarrow> nat \<Rightarrow> ring \<Rightarrow> port" where
  "put_rx_ring P ri r = P\<lparr>port_rx_rings := (port_rx_rings P)[ri := r]\<rparr>"

fun init_rings :: "host \<Rightarrow> ptr \<Rightarrow> nat list \<Rightarrow> port \<Rightarrow> (uevent, outcome + port) io" where
  "init_rings H base [] P = State_Monad.return (Inr P)"
| "init_rings H base (ri # ris) P =
     (if ri < length (port_rx_rings P) then do {
        let r = port_rx_rings P ! ri;
        slots \<leftarrow> init_slots H base ri (ring_num_slots r) [0 ..< unat (ring_num_slots r)] (ring_slots r);
        (case slots of
           Inl x \<Rightarrow> State_Monad.return (Inl x)
         | Inr ss \<Rightarrow> init_rings H base ris (put_rx_ring P ri (r\<lparr>ring_slots := ss\<rparr>)))
      }
      else State_Monad.return (Inl (Faulted OutOfBounds)))"

definition init_nm_rx_ring_for_phy :: "host \<Rightarrow> ptr \<Rightarrow> port \<Rightarrow> (uevent, outcome + port) io" where
  "init_nm_rx_ring_for_phy H base P = init_rings H base [0 ..< Suc (unat (port_last_rx_ring P))] P"

subsection \<open>Flushing the rings\<close>

fun flush_rings :: "host \<Rightarrow> nat list \<Rightarrow> port \<Rightarrow> (uevent, outcome + port) io" where
  "flush_rings H [] P = State_Monad.return (Inr P)"
| "flush_rings H (ri # ris) P =
     (if ri < length (port_rx_rings P) then do {
        let r = port_rx_rings P ! ri;
        let r1 = r\<lparr>ring_cur := ring_num_slots r - 1, ring_head := ring_num_slots r - 1\<rparr>;
        (_, P1) \<leftarrow> ask (\<lambda>h. h_rxsync H h (put_rx_ring P ri r1)) (\<lambda>(x, _). RxSync x);
        flush_rings H ris P1
      }
      else State_Monad.return (Inl (Faulted OutOfBounds)))"

definition recv_flush :: "host \<Rightarrow> port \<Rightarrow> (uevent, outcome + port) io" where
  "recv_flush H P = flush_rings H [unat (port_first_rx_ring P) ..< unat (port_last_rx_ring P)] P"

subsection \<open>Receiving\<close>

text \<open>\<open>hexdump (p, slot->len > 128 ? 128 : slot->len)\<close>\<close>

definition dump_slot :: "host \<Rightarrow> ptr \<Rightarrow> slot \<Rightarrow> (uevent, string option) io" where
  "dump_slot H p s =
     ask (\<lambda>h. recv_hexdump (h_memory H h p) (if slot_len s > 128 then 128 else ucast (slot_len s)))
       (\<lambda>r. Dump p (case r of None \<Rightarrow> [] | Some t \<Rightarrow> t))"

text \<open>
  One packet, from the slot at the head of ring \<open>ri\<close>. With \<open>no_p2pmem\<close> the address \<open>buf\<close> was never
  set; \<open>pkt\<close>, computed from it, is not used then.
\<close>

definition recv_slot :: "host \<Rightarrow> bool \<Rightarrow> ptr \<Rightarrow> nat \<Rightarrow> ring \<Rightarrow> (uevent, outcome + ring) io" where
  "recv_slot H no_p2pmem buf ri r = (let cur = ring_head r in
     if unat cur < length (ring_slots r) then
       (let s = ring_slots r ! unat cur in
        case nmslot_to_buf buf (of_nat ri) cur (ring_num_slots r) of
          None \<Rightarrow> State_Monad.return (Inl (Faulted IntOverflow))
        | Some pkt \<Rightarrow>
            if \<not> no_p2pmem then do {
              pa \<leftarrow> phy_addr H pkt;
              (case pa of
                 Inl x \<Rightarrow> State_Monad.return (Inl x)
               | Inr _ \<Rightarrow> do {
                   d \<leftarrow> dump_slot H pkt s;
                   State_Monad.return (if d = None then Inl (Faulted OutOfBounds)
                     else Inr (ring_advance H r cur))
                 })
            }
            else do {
              d \<leftarrow> dump_slot H (h_nm_buf H (RxRing ri) (slot_buf_idx s)) s;
              State_Monad.return (if d = None then Inl (Faulted OutOfBounds)
                else Inr (ring_advance H r cur))
            })
     else State_Monad.return (Inl (Faulted OutOfBounds)))"

fun drain_ring :: "host \<Rightarrow> bool \<Rightarrow> ptr \<Rightarrow> nat \<Rightarrow> nat \<Rightarrow> ring \<Rightarrow> (uevent, outcome + ring) io" where
  "drain_ring H no_p2pmem buf ri 0 r = State_Monad.return (Inl Unfinished)"
| "drain_ring H no_p2pmem buf ri (Suc fuel) r =
     (if h_nm_ring_empty H r then State_Monad.return (Inr r)
      else do {
        x \<leftarrow> recv_slot H no_p2pmem buf ri r;
        (case x of
           Inl e \<Rightarrow> State_Monad.return (Inl e)
         | Inr r1 \<Rightarrow> drain_ring H no_p2pmem buf ri fuel r1)
      })"

fun drain_rings :: "host \<Rightarrow> bool \<Rightarrow> ptr \<Rightarrow> nat \<Rightarrow> nat list \<Rightarrow> port \<Rightarrow> (uevent, outcome + port) io" where
  "drain_rings H no_p2pmem buf fuel [] P = State_Monad.return (Inr P)"
| "drain_rings H no_p2pmem buf fuel (ri # ris) P =
     (if ri < length (port_rx_rings P) then do {
        x \<leftarrow> drain_ring H no_p2pmem buf ri fuel (port_rx_rings P ! ri);
        (case x of
           Inl e \<Rightarrow> State_Monad.return (Inl e)
         | Inr r1 \<Rightarrow> drain_rings H no_p2pmem buf fuel ris (put_rx_ring P ri r1))
      }
      else State_Monad.return (Inl (Faulted OutOfBounds)))"

definition rx_ring_indices :: "port \<Rightarrow> nat list" where
  "rx_ring_indices P = [unat (port_first_rx_ring P) ..< Suc (unat (port_last_rx_ring P))]"

text \<open>The label \<open>out\<close>, and the endless loop.\<close>

definition recv_out :: "s32 \<Rightarrow> (uevent, outcome) io" where
  "recv_out ret = do { emit NmClose; State_Monad.return (Returned (Some ret)) }"

fun recv_loop :: "host \<Rightarrow> bool \<Rightarrow> ptr \<Rightarrow> nat \<Rightarrow> nat \<Rightarrow> port \<Rightarrow> (uevent, outcome) io" where
  "recv_loop H no_p2pmem buf fuel 0 P = State_Monad.return Unfinished"
| "recv_loop H no_p2pmem buf fuel (Suc k) P = do {
     (ret, P1) \<leftarrow> ask (\<lambda>h. h_rxsync H h P) (\<lambda>(x, _). RxSync x);
     if sint ret < 0 then recv_out ret
     else do {
       (ret2, P2) \<leftarrow> ask (\<lambda>h. h_poll H h P1) (\<lambda>(x, _). Poll x);
       if sint ret2 < - 1 then recv_out ret2
       else do {
         x \<leftarrow> drain_rings H no_p2pmem buf fuel (rx_ring_indices P2) P2;
         (case x of
            Inl e \<Rightarrow> State_Monad.return e
          | Inr P3 \<Rightarrow> recv_loop H no_p2pmem buf fuel k P3)
       }
     }
   }"

subsection \<open>main\<close>

record recv_opts =
  ro_nm_name :: "string option"
  ro_no_p2pmem :: bool

definition recv_optstring :: string where
  "recv_optstring = ''i:n''"

fun recv_options :: "(char \<times> string) list \<Rightarrow> recv_opts \<Rightarrow> recv_opts option" where
  "recv_options [] o1 = Some o1"
| "recv_options ((ch, optarg) # oas) o1 =
     (if ch = CHR ''i'' then recv_options oas (o1\<lparr>ro_nm_name := Some optarg\<rparr>)
      else if ch = CHR ''n'' then recv_options oas (o1\<lparr>ro_no_p2pmem := True\<rparr>)
      else None)"

text \<open>The branch that sets up the p2p memory: the mapping, the addresses, the flush.\<close>

definition recv_setup :: "host \<Rightarrow> s32 \<Rightarrow> port \<Rightarrow> (uevent, outcome + ptr \<times> port) io" where
  "recv_setup H fd P = do {
     buf \<leftarrow> ask (\<lambda>h. h_mmap H h PRAM_SIZE fd) (\<lambda>r. Mmap PRAM_SIZE fd r);
     if buf = - 1 then do {
       emit NmClose;
       State_Monad.return (Inl (Returned (Some 1)))
     }
     else do {
       emit (Memset buf 0 PRAM_SIZE);
       pa \<leftarrow> phy_addr H buf;
       (case pa of
          Inl x \<Rightarrow> State_Monad.return (Inl x)
        | Inr _ \<Rightarrow> do {
            i \<leftarrow> init_nm_rx_ring_for_phy H buf P;
            (case i of
               Inl x \<Rightarrow> State_Monad.return (Inl x)
             | Inr P1 \<Rightarrow> do {
                 emit (StoreByte (buf + 512 * 2048 * 5) 0xaa);
                 f \<leftarrow> recv_flush H P1;
                 State_Monad.return (case f of Inl x \<Rightarrow> Inl x | Inr P2 \<Rightarrow> Inr (buf, P2))
               })
          })
     }
   }"

definition recv_main :: "host \<Rightarrow> nat \<Rightarrow> nat \<Rightarrow> string list \<Rightarrow> (uevent, outcome) io" where
  "recv_main H fuel k argv =
     (case recv_options (getopt_args recv_optstring argv) \<lparr>ro_nm_name = None, ro_no_p2pmem = False\<rparr> of
        None \<Rightarrow> State_Monad.return (Returned (Some 1))
      | Some o1 \<Rightarrow> do {
          nm \<leftarrow> ask (\<lambda>h. h_nm_open H h (ro_nm_name o1)) (\<lambda>r. NmOpen (ro_nm_name o1) (r \<noteq> None));
          (case nm of
             None \<Rightarrow> State_Monad.return (Returned (Some (- 1)))
           | Some nm_desc \<Rightarrow> do {
               fd \<leftarrow> ask (\<lambda>h. h_open H h ''/dev/p2pmmap'') (\<lambda>r. Open ''/dev/p2pmmap'' r);
               if sint fd < 0 then do {
                 emit NmClose;
                 State_Monad.return (Returned (Some fd))
               }
               else if ro_no_p2pmem o1 then recv_loop H True 0 fuel k nm_desc
               else do {
                 s \<leftarrow> recv_setup H fd nm_desc;
                 (case s of
                    Inl x \<Rightarrow> State_Monad.return x
                  | Inr (buf, P) \<Rightarrow> recv_loop H False buf fuel k P)
               }
             })
        })"

subsection \<open>The layout of the buffers\<close>

lemma sint_of_nat_s32: "n < 2 ^ 31 \<Longrightarrow> sint (of_nat n :: s32) = int n"
  by (simp add: signed_of_nat signed_take_bit_int_eq_self)

lemma cell_less:
  assumes "ri < rings" and "idx < (num :: nat)"
  shows "ri * num + idx < rings * num"
proof -
  have "ri * num + idx < Suc ri * num" using assms(2) by simp
  also have "\<dots> \<le> rings * num" using assms(1) by (intro mult_right_mono) simp_all
  finally show ?thesis .
qed

lemma nmslot_to_buf_value:
  assumes "ri < rings" and "idx < num" and "rings * num \<le> 32768" and "unat base + 67108864 \<le> 2 ^ 64"
  shows "nmslot_to_buf base (of_nat ri) (of_nat idx) (of_nat num) =
      Some (base + of_nat (2048 * (ri * num + idx)))"
    and "unat (base + of_nat (2048 * (ri * num + idx)) :: u64) = unat base + 2048 * (ri * num + idx)"
proof -
  have cell: "ri * num + idx < 32768" using cell_less [OF assms(1,2)] assms(3) by linarith
  then have rn: "ri * num < 32768" "idx < 32768" by simp_all
  have "num \<le> rings * num" "rings \<le> rings * num"
    using assms(1,2) by simp_all
  with assms(1,3) have small: "num \<le> 32768" "ri < 32768" by linarith+
  have s: "sint (of_nat ri :: s32) = int ri" "sint (of_nat idx :: s32) = int idx"
    "sint (of_nat num :: s32) = int num"
    using small rn by (simp_all add: sint_of_nat_s32)
  have a: "int (2048 * num) * sint (of_nat ri :: s32) = int (2048 * (ri * num))"
    by (simp add: s)
  have b: "2048 * sint (of_nat idx :: s32) = int (2048 * idx)" by (simp add: s)
  have row: "sint (of_nat num :: s32) * 2048 = int (2048 * num)" by (simp add: s)
  have "in_int (int x)" if "x \<le> 2048 * 32768" for x
    using that by (simp add: in_int_def)
  then have "in_int (int (2048 * num))" "in_int (int (2048 * (ri * num)))" "in_int (int (2048 * idx))"
    using small(1) rn by (metis mult_le_mono2 less_imp_le)+
  then show "nmslot_to_buf base (of_nat ri) (of_nat idx) (of_nat num) =
      Some (base + of_nat (2048 * (ri * num + idx)))"
    unfolding nmslot_to_buf_def Let_def a b row of_int_of_nat_eq
    by (simp add: distrib_left add.assoc)
  show "unat (base + of_nat (2048 * (ri * num + idx)) :: u64) = unat base + 2048 * (ri * num + idx)"
  proof -
    have "unat (base + of_nat x) = unat base + x" if "unat base + x < 2 ^ 64" for x
      using that by (simp add: unat_word_ariths unsigned_of_nat take_bit_eq_mod)
    moreover have "unat base + 2048 * x < 2 ^ 64" if "x < 32768" for x
      using that assms(4) by simp
    then have "unat base + 2048 * (ri * num + idx) < 2 ^ 64" using cell by blast
    ultimately show ?thesis by blast
  qed
qed

text \<open>The layout of a table of cells of one size, for the clients of \<open>nmslot_to_buf\<close>.\<close>

locale cell_layout =
  fixes place :: "nat \<Rightarrow> nat \<Rightarrow> nat" and rows cols sz limit :: nat
  assumes inside: "i < rows \<Longrightarrow> j < cols \<Longrightarrow> place i j + sz \<le> limit"
    and apart: "i < rows \<Longrightarrow> j < cols \<Longrightarrow> i' < rows \<Longrightarrow> j' < cols \<Longrightarrow> (i, j) \<noteq> (i', j') \<Longrightarrow>
      place i j + sz \<le> place i' j' \<or> place i' j' + sz \<le> place i j"
begin

lemma no_overlap:
  assumes "i < rows" "j < cols" "i' < rows" "j' < cols" "x < sz" "y < sz"
    and "place i j + x = place i' j' + y"
  shows "i = i' \<and> j = j' \<and> x = y"
proof (cases "(i, j) = (i', j')")
  case False
  from apart [OF assms(1-4) False] assms(5-7) show ?thesis by linarith
qed (use assms(7) in simp)

end

lemma table_layout:
  assumes "0 < sz"
  shows "cell_layout (\<lambda>i j. sz * (i * cols + j)) rows cols sz (sz * (rows * cols))"
proof
  fix i j :: nat assume "i < rows" "j < cols"
  then have "Suc (i * cols + j) \<le> rows * cols" using cell_less by (simp add: Suc_leI)
  then have "sz * Suc (i * cols + j) \<le> sz * (rows * cols)" by (intro mult_left_mono) simp_all
  then show "sz * (i * cols + j) + sz \<le> sz * (rows * cols)" by simp
next
  fix i j i' j' :: nat assume lt: "j < cols" "j' < cols" and ne: "(i, j) \<noteq> (i', j')"
  have "i * cols + j \<noteq> i' * cols + j'"
  proof
    assume eq: "i * cols + j = i' * cols + j'"
    then have "(i * cols + j) div cols = (i' * cols + j') div cols"
      "(i * cols + j) mod cols = (i' * cols + j') mod cols" by simp_all
    with lt ne show False by simp
  qed
  then have "Suc (i * cols + j) \<le> i' * cols + j' \<or> Suc (i' * cols + j') \<le> i * cols + j" by linarith
  then have "sz * Suc (i * cols + j) \<le> sz * (i' * cols + j') \<or> sz * Suc (i' * cols + j') \<le> sz * (i * cols + j)"
    using mult_le_mono2 by blast
  moreover have "sz * Suc x = sz * x + sz" for x by simp
  ultimately show "sz * (i * cols + j) + sz \<le> sz * (i' * cols + j') \<or> sz * (i' * cols + j') + sz \<le> sz * (i * cols + j)"
    by (simp only:)
qed

interpretation pram: cell_layout "\<lambda>ri idx. 2048 * (ri * num + idx)" rings num 2048 "2048 * (rings * num)"
  for num rings
  by (rule table_layout) simp

text \<open>
  C27. As long as all slots of all rings together need no more than the mapping has (32768
  buffers), the computation of a buffer's address does not overflow, every buffer lies inside the
  mapping, and no byte belongs to the buffers of two slots.
\<close>

theorem nmslot_buffers_disjoint:
  assumes "rings * num \<le> 32768" and "unat base + 67108864 \<le> 2 ^ 64"
    and "ri < rings" "idx < num" "rj < rings" "jdx < num"
  shows "\<exists>a b. nmslot_to_buf base (of_nat ri) (of_nat idx) (of_nat num) = Some a \<and>
    nmslot_to_buf base (of_nat rj) (of_nat jdx) (of_nat num) = Some b \<and>
    unat base \<le> unat a \<and> unat a + 2048 \<le> unat base + unat PRAM_SIZE \<and>
    (\<forall>x y. x < 2048 \<longrightarrow> y < 2048 \<longrightarrow> unat a + x = unat b + y \<longrightarrow> ri = rj \<and> idx = jdx \<and> x = y)"
proof -
  note a = nmslot_to_buf_value [OF assms(3,4,1,2)] and b = nmslot_to_buf_value [OF assms(5,6,1,2)]
  have "2048 * (ri * num + idx) + 2048 \<le> 2048 * (rings * num)"
    by (rule pram.inside [OF assms(3,4)])
  with assms(1) have "2048 * (ri * num + idx) + 2048 \<le> 67108864" by linarith
  moreover have "\<forall>x y. x < 2048 \<longrightarrow> y < 2048 \<longrightarrow>
      2048 * (ri * num + idx) + x = 2048 * (rj * num + jdx) + y \<longrightarrow> ri = rj \<and> idx = jdx \<and> x = y"
    using pram.no_overlap [OF assms(3-6)] by blast
  ultimately show ?thesis
    by (intro exI conjI) (rule a(1), rule b(1), simp_all only: a(2) b(2), simp_all add: PRAM_SIZE_def)
qed

theorem nmslot_buffers_disjoint_witness:
  "\<exists>a b. nmslot_to_buf 0x7f0000000000 1 2 512 = Some a \<and> nmslot_to_buf 0x7f0000000000 3 0 512 = Some b \<and>
     (\<forall>x y. x < 2048 \<longrightarrow> y < 2048 \<longrightarrow> unat a + x \<noteq> unat b + y)"
proof -
  have "unat (0x7f0000000000 :: u64) + 67108864 \<le> 2 ^ 64" by simp
  from nmslot_buffers_disjoint [OF _ this, of 8 512 1 2 3 0] show ?thesis by auto
qed

text \<open>
  The tool never compares the number of slots with the size of the mapping: with 64
  rings of 1024 slots the buffers of the second half of the rings lie outside the 64 MB that were
  mapped, and with 1024 such rings the computation of the address overflows.
\<close>

theorem nmslot_outside_mapping:
  "nmslot_to_buf base 32 0 1024 = Some (base + PRAM_SIZE) \<and> nmslot_to_buf base 1024 0 1024 = None"
  by (simp add: nmslot_to_buf_def Let_def in_int_def PRAM_SIZE_def)

subsection \<open>Draining a ring\<close>

definition slot_buffer :: "host \<Rightarrow> bool \<Rightarrow> ptr \<Rightarrow> nat \<Rightarrow> ring \<Rightarrow> nat \<Rightarrow> ptr option" where
  "slot_buffer H no_p2pmem buf ri r i =
     (if no_p2pmem then Some (h_nm_buf H (RxRing ri) (slot_buf_idx (ring_slots r ! i)))
      else nmslot_to_buf buf (of_nat ri) (of_nat i) (ring_num_slots r))"

fun dump_item :: "uevent \<Rightarrow> ptr option list" where
  "dump_item (Dump p s) = [Some p]"
| "dump_item e = []"

lemma phy_addr_no_dump:
  "obeys (collect dump_item) xs (phy_addr H v) (\<lambda>r ys. ys = xs \<and> (\<forall>x. r = Inl x \<longrightarrow> x = Exited 1))"
  unfolding phy_addr_def
  by (auto simp: obeys_simps Let_def collect_def [of _ xs] split: prod.splits intro!: obeys_bind)

lemma recv_slot_dumps:
  "obeys (collect dump_item) xs (recv_slot H no_p2pmem buf ri r) (\<lambda>x ys. case x of
     Inl e \<Rightarrow> e \<noteq> Unfinished
   | Inr r1 \<Rightarrow> r1 = ring_advance H r (ring_head r) \<and>
       ys = xs @ [slot_buffer H no_p2pmem buf ri r (unat (ring_head r))])"
  unfolding recv_slot_def dump_slot_def
  by (auto simp: obeys_simps collect_def [of _ "_ :: ptr option list"] slot_buffer_def Let_def
      split: option.splits sum.splits intro!: obeys_bind obeys_mono [OF phy_addr_no_dump])

lemma drain_ring_dumps:
  assumes "netmap_ok H"
  shows "ring_wf r \<Longrightarrow> ring_head r = ring_cur r \<Longrightarrow> ring_avail r < fuel \<Longrightarrow>
    obeys (collect dump_item) xs (drain_ring H no_p2pmem buf ri fuel r) (\<lambda>x ys. case x of
      Inl e \<Rightarrow> e \<noteq> Unfinished
    | Inr r' \<Rightarrow> r' = r\<lparr>ring_head := ring_tail r, ring_cur := ring_tail r\<rparr> \<and>
        ys = xs @ map (\<lambda>k. slot_buffer H no_p2pmem buf ri r (ring_index r (unat (ring_cur r)) k)) [0 ..< ring_avail r])"
proof (induction fuel arbitrary: r xs)
  case (Suc fuel)
  show ?case
  proof (cases "h_nm_ring_empty H r")
    case True
    then have "ring_avail r = 0" "ring_cur r = ring_tail r"
      using ring_empty_avail [OF assms Suc.prems(1)] assms unfolding netmap_ok_def by blast+
    with True Suc.prems(2) show ?thesis by (cases r) (simp add: obeys_simps)
  next
    case False
    let ?c = "unat (ring_cur r)" and ?r = "ring_advance H r (ring_cur r)"
    have pos: "ring_avail r \<noteq> 0" using False assms Suc.prems(1) ring_empty_avail by blast
    have cur: "ring_cur r < ring_num_slots r" using Suc.prems(1) by (simp add: ring_wf_def)
    have wf: "ring_wf ?r" by (rule ring_advance_wf [OF assms Suc.prems(1) cur])
    have avail: "ring_avail ?r = ring_avail r - 1"
      using ring_avail_advance [OF assms Suc.prems(1)] pos by simp
    have same: "?r\<lparr>ring_head := t, ring_cur := t\<rparr> = r\<lparr>ring_head := t, ring_cur := t\<rparr>" for t
      by (simp add: ring_advance_def Let_def)
    have idx: "ring_index ?r i k = ring_index r i k" and buf': "slot_buffer H no_p2pmem buf ri ?r i =
        slot_buffer H no_p2pmem buf ri r i" for i k
      by (simp_all add: ring_index_def slot_buffer_def)
    have step: "ring_index r (unat (ring_cur ?r)) k = ring_index r ?c (Suc k)" for k
      using ring_advance_cur [OF assms cur] by (simp add: ring_index_step)
    have c0: "ring_index r ?c 0 = ?c" using cur by (simp add: ring_index_def word_less_nat_alt)
    have order: "[0 ..< ring_avail r] = 0 # map Suc [0 ..< ring_avail r - 1]"
      using pos by (metis Suc_pred' map_Suc_upt neq0_conv upt_conv_Cons)
    have rest: "obeys (collect dump_item) ys (drain_ring H no_p2pmem buf ri fuel ?r) (\<lambda>x zs. case x of
      Inl e \<Rightarrow> e \<noteq> Unfinished
    | Inr r' \<Rightarrow> r' = r\<lparr>ring_head := ring_tail r, ring_cur := ring_tail r\<rparr> \<and>
        zs = ys @ map (\<lambda>k. slot_buffer H no_p2pmem buf ri r (ring_index r ?c (Suc k))) [0 ..< ring_avail r - 1])" for ys
    proof (rule obeys_mono [OF Suc.IH [OF wf, of ys]])
      show "ring_avail ?r < fuel" using Suc.prems(3) avail pos by linarith
    qed (auto simp: idx buf' step avail same split: sum.splits)
    show ?thesis
      using False Suc.prems(2) unfolding order
      by (auto simp: obeys_simps c0 comp_def split: sum.splits
          intro!: obeys_bindI [OF recv_slot_dumps] obeys_mono [OF rest])
  qed
qed simp

text \<open>
  Draining a ring ends after as many rounds as there are filled slots, whatever the
  environment answers, and unless it stops the program it has shown exactly the buffers of the slots
  from the cursor up to the tail, in ring order and each once, and left the ring empty, its slots
  unchanged and its cursors at the tail.
\<close>

theorem drain_ring_shows_all:
  assumes "netmap_ok H" and "ring_wf r" and "ring_head r = ring_cur r" and "ring_avail r < fuel"
    and "run_state (drain_ring H no_p2pmem buf ri fuel r) h = (x, h @ evs)"
  shows "x \<noteq> Inl Unfinished \<and> (\<forall>r'. x = Inr r' \<longrightarrow>
    concat (map dump_item evs) = map (\<lambda>k. slot_buffer H no_p2pmem buf ri r
      ((unat (ring_cur r) + k) mod unat (ring_num_slots r))) [0 ..< ring_avail r] \<and>
    ring_cur r' = ring_tail r \<and> ring_head r' = ring_tail r \<and> ring_slots r' = ring_slots r)"
  using obeys_collectD [OF drain_ring_dumps [OF assms(1-4)] assms(5)]
  by (auto simp: ring_index_def)

lemma demo_recv_slot:
  assumes "ring_num_slots r = 4" and "ring_head r < 3" and "ring_slots r = replicate 4 demo_slot"
  shows "fst (run_state (recv_slot demo_host True 0 1 r) h) = Inr (ring_advance demo_host r (ring_head r))"
proof -
  have head: "unat (ring_head r) < 3" using assms(2) by (simp add: word_less_nat_alt)
  then have "nmslot_to_buf 0 (of_nat 1) (of_nat (unat (ring_head r))) (of_nat 4) \<noteq> None"
    using nmslot_to_buf_value(1) [of 1 2 "unat (ring_head r)" 4 0] by simp
  then have buf: "nmslot_to_buf 0 1 (ring_head r) 4 \<noteq> None" by simp
  have "unat (ring_head r) < length (ring_slots r)"
    "ring_slots r ! unat (ring_head r) = demo_slot"
    using head assms(3) by simp_all
  moreover have "slot_len demo_slot = 0" by (simp add: demo_slot_def)
  ultimately show ?thesis
    using buf assms(1) by (auto simp: recv_slot_def dump_slot_def recv_hexdump_def Let_def)
qed

definition demo_ring_at :: "u32 \<Rightarrow> ring" where
  "demo_ring_at c = demo_ring\<lparr>ring_head := c, ring_cur := c\<rparr>"

lemma demo_steps:
  "fst (run_state (recv_slot demo_host True 0 1 (demo_ring_at 0)) h) = Inr (demo_ring_at 1)"
  "fst (run_state (recv_slot demo_host True 0 1 (demo_ring_at 1)) h) = Inr (demo_ring_at 2)"
  "fst (run_state (recv_slot demo_host True 0 1 (demo_ring_at 2)) h) = Inr (demo_ring_at 3)"
  by (subst demo_recv_slot; simp add: demo_ring_at_def demo_ring_def ring_advance_def demo_host_def)+

lemma demo_empty:
  "\<not> h_nm_ring_empty demo_host (demo_ring_at 0)" "\<not> h_nm_ring_empty demo_host (demo_ring_at 1)"
  "\<not> h_nm_ring_empty demo_host (demo_ring_at 2)" "h_nm_ring_empty demo_host (demo_ring_at 3)"
  by (simp_all add: demo_ring_at_def demo_ring_def demo_host_def)

lemma demo_drain:
  "fst (run_state (drain_ring demo_host True 0 1 (Suc (Suc (Suc (Suc 0)))) demo_ring) []) = Inr (demo_ring_at 3)"
proof -
  have start: "demo_ring = demo_ring_at 0" by (simp add: demo_ring_at_def demo_ring_def)
  show ?thesis
    unfolding start by (simp add: split_beta demo_steps [unfolded One_nat_def] demo_empty)
qed

theorem drain_ring_shows_all_witness:
  "\<exists>evs r'. run_state (drain_ring demo_host True 0 1 4 demo_ring) [] = (Inr r', evs) \<and>
     concat (map dump_item evs) = replicate 3 (Some 0x7e0000001000) \<and> ring_cur r' = 3"
proof -
  have ring: "ring_wf demo_ring" "ring_head demo_ring = ring_cur demo_ring" "ring_avail demo_ring = 3"
    by (simp_all add: ring_wf_def demo_ring_def ring_avail_def)
  have fuel: "Suc (Suc (Suc (Suc 0))) = 4" by simp
  obtain evs r' where run: "run_state (drain_ring demo_host True 0 1 4 demo_ring) [] = (Inr r', [] @ evs)"
    using demo_drain unfolding fuel by (metis append_Nil prod.collapse)
  have "(\<lambda>k. slot_buffer demo_host True 0 1 demo_ring ((unat (ring_cur demo_ring) + k) mod
      unat (ring_num_slots demo_ring))) = (\<lambda>k. Some 0x7e0000001000)"
    by (rule ext) (simp add: slot_buffer_def demo_host_def demo_ring_def demo_slot_def)
  with drain_ring_shows_all [OF demo_host_ok ring(1,2) _ run] ring(3) run show ?thesis
    by (auto simp: demo_ring_def map_replicate_const)
qed

subsection \<open>Setting up the rings\<close>

text \<open>Rings of one size, all of them in the interface.\<close>

definition rx_uniform :: "port \<Rightarrow> nat \<Rightarrow> nat \<Rightarrow> bool" where
  "rx_uniform P rings num \<longleftrightarrow> rings \<le> length (port_rx_rings P) \<and> num < 2 ^ 32 \<and>
     (\<forall>ri < rings. ring_num_slots (port_rx_rings P ! ri) = of_nat num \<and>
        length (ring_slots (port_rx_rings P ! ri)) = num)"

definition set_address :: "host \<Rightarrow> (ptr \<Rightarrow> u64) \<Rightarrow> ptr \<Rightarrow> nat \<Rightarrow> nat \<Rightarrow> nat \<Rightarrow> slot \<Rightarrow> slot" where
  "set_address H f base num ri i s = s\<lparr>slot_flags := slot_flags s OR h_ns_phy_indirect H,
     slot_ptr := f (base + of_nat (2048 * (ri * num + i)))\<rparr>"

lemma init_slots_value:
  assumes "page_map H f" and "ri < rings" and "rings * num \<le> 32768" and "unat base + 67108864 \<le> 2 ^ 64"
  shows "set is \<subseteq> {..<num} \<Longrightarrow> distinct is \<Longrightarrow> length slots = num \<Longrightarrow>
    \<exists>ss. fst (run_state (init_slots H base ri (of_nat num) is slots) h) = Inr ss \<and> length ss = num \<and>
      (\<forall>i < num. ss ! i = (if i \<in> set is then set_address H f base num ri i (slots ! i) else slots ! i))"
proof (induction "is" arbitrary: slots h)
  case (Cons i "is")
  have i: "i < num" "set is \<subseteq> {..<num}" "distinct is" "i \<notin> set is" using Cons.prems by auto
  note buf = nmslot_to_buf_value(1) [OF assms(2) i(1) assms(3,4)]
  let ?s = "slots[i := set_address H f base num ri i (slots ! i)]"
  have len: "length ?s = num" using Cons.prems by simp
  have pa: "fst (run_state (phy_addr H v) h) = Inr (f v)" for v h
    using assms(1) by (simp add: page_map_def)
  obtain ss where ss: "fst (run_state (init_slots H base ri (of_nat num) is ?s)
      (snd (run_state (phy_addr H (base + of_nat (2048 * (ri * num + i)))) h))) = Inr ss" "length ss = num"
    "\<forall>j < num. ss ! j = (if j \<in> set is then set_address H f base num ri j (?s ! j) else ?s ! j)"
    using Cons.IH [OF i(2,3) len] by blast
  have "fst (run_state (init_slots H base ri (of_nat num) (i # is) slots) h) = Inr ss"
    using i(1) Cons.prems(3) ss(1) pa [of "base + of_nat (2048 * (ri * num + i))" h]
    by (simp only: init_slots.simps buf option.case) (simp add: split_beta set_address_def)
  moreover have "\<forall>j < num. ss ! j = (if j \<in> set (i # is) then set_address H f base num ri j (slots ! j) else slots ! j)"
    using ss(3) i(1,4) Cons.prems(3) by (auto simp: nth_list_update)
  ultimately show ?case using ss(2) by blast
qed simp

lemma init_rings_value:
  assumes "page_map H f" and "rings * num \<le> 32768" and "unat base + 67108864 \<le> 2 ^ 64"
  shows "set ris \<subseteq> {..<rings} \<Longrightarrow> distinct ris \<Longrightarrow> rx_uniform P rings num \<Longrightarrow>
    \<exists>P'. fst (run_state (init_rings H base ris P) h) = Inr P' \<and> rx_uniform P' rings num \<and>
      (\<forall>ri < rings. \<forall>i < num. ring_slots (port_rx_rings P' ! ri) ! i =
        (if ri \<in> set ris then set_address H f base num ri i (ring_slots (port_rx_rings P ! ri) ! i)
         else ring_slots (port_rx_rings P ! ri) ! i))"
proof (induction ris arbitrary: P h)
  case (Cons ri ris)
  have ri: "ri < rings" "set ris \<subseteq> {..<rings}" "distinct ris" "ri \<notin> set ris" using Cons.prems by auto
  let ?r = "port_rx_rings P ! ri"
  have len: "ri < length (port_rx_rings P)" and num: "ring_num_slots ?r = of_nat num"
    and slots: "length (ring_slots ?r) = num" and small: "num < 2 ^ 32"
    using Cons.prems(3) ri(1) by (auto simp: rx_uniform_def)
  have unum: "unat (of_nat num :: u32) = num"
    using small by (simp add: unsigned_of_nat take_bit_nat_eq_self)
  obtain ss where ss: "fst (run_state (init_slots H base ri (of_nat num) [0 ..< num] (ring_slots ?r)) h) = Inr ss"
    "length ss = num" "\<forall>i < num. ss ! i = set_address H f base num ri i (ring_slots ?r ! i)"
    using init_slots_value [OF assms(1) ri(1) assms(2,3) _ _ slots, of "[0 ..< num]" h]
    by (auto simp: atLeast0LessThan)
  let ?P = "put_rx_ring P ri (?r\<lparr>ring_slots := ss\<rparr>)"
  have uni: "rx_uniform ?P rings num"
    using Cons.prems(3) ri(1) ss(2) num by (auto simp: rx_uniform_def put_rx_ring_def nth_list_update)
  obtain P' where P': "fst (run_state (init_rings H base ris ?P)
      (snd (run_state (init_slots H base ri (of_nat num) [0 ..< num] (ring_slots ?r)) h))) = Inr P'"
    "rx_uniform P' rings num" "\<forall>rj < rings. \<forall>i < num. ring_slots (port_rx_rings P' ! rj) ! i =
      (if rj \<in> set ris then set_address H f base num rj i (ring_slots (port_rx_rings ?P ! rj) ! i)
       else ring_slots (port_rx_rings ?P ! rj) ! i)"
    using Cons.IH [OF ri(2,3) uni] by blast
  have "fst (run_state (init_rings H base (ri # ris) P) h) = Inr P'"
    using len ss(1) P'(1) by (simp add: split_beta Let_def num unum)
  moreover have "\<forall>rj < rings. \<forall>i < num. ring_slots (port_rx_rings P' ! rj) ! i =
      (if rj \<in> set (ri # ris) then set_address H f base num rj i (ring_slots (port_rx_rings P ! rj) ! i)
       else ring_slots (port_rx_rings P ! rj) ! i)"
    using P'(3) ss(3) ri(4) len by (auto simp: put_rx_ring_def nth_list_update)
  ultimately show ?case using P'(2) by blast
qed simp

text \<open>
  C26. The initialisation gives every slot of every receive ring up to the last the physical
  address of its own buffer in the mapping and the flag that makes netmap use it, and changes nothing
  else in the slots, when the rings are of one size, their buffers fit into the mapping and the page
  map does not change.
\<close>

theorem init_rings_addresses:
  assumes "page_map H f" and "rx_uniform P rings num" and "rings = Suc (unat (port_last_rx_ring P))"
    and "rings * num \<le> 32768" and "unat base + 67108864 \<le> 2 ^ 64" and "ri < rings" and "i < num"
    and "run_state (init_nm_rx_ring_for_phy H base P) h = (x, h')"
  shows "\<exists>P' buf. x = Inr P' \<and> nmslot_to_buf base (of_nat ri) (of_nat i) (of_nat num) = Some buf \<and>
    ring_slots (port_rx_rings P' ! ri) ! i = (ring_slots (port_rx_rings P ! ri) ! i)
      \<lparr>slot_flags := slot_flags (ring_slots (port_rx_rings P ! ri) ! i) OR h_ns_phy_indirect H,
       slot_ptr := f buf\<rparr>"
proof -
  have set: "set [0 ..< rings] \<subseteq> {..<rings}" by auto
  obtain P' where P': "fst (run_state (init_rings H base [0 ..< rings] P) h) = Inr P'"
    "ring_slots (port_rx_rings P' ! ri) ! i = set_address H f base num ri i (ring_slots (port_rx_rings P ! ri) ! i)"
    using init_rings_value [OF assms(1,4,5) set _ assms(2), of h] assms(6,7) by auto
  have "x = Inr P'"
    using P'(1) assms(8) unfolding init_nm_rx_ring_for_phy_def assms(3) [symmetric] by simp
  with P'(2) nmslot_to_buf_value(1) [OF assms(6,7,4,5)] show ?thesis
    by (auto simp: set_address_def)
qed

theorem init_rings_addresses_witness:
  "\<exists>P'. fst (run_state (init_nm_rx_ring_for_phy demo_host 0x7f0000000000 demo_port) []) = Inr P' \<and>
     slot_ptr (ring_slots (port_rx_rings P' ! 1) ! 3) = 0x12345800 \<and>
     slot_flags (ring_slots (port_rx_rings P' ! 1) ! 3) = 0x0100"
proof -
  obtain x h' where run: "run_state (init_nm_rx_ring_for_phy demo_host 0x7f0000000000 demo_port) [] = (x, h')"
    by (rule prod.exhaust)
  have uni: "rx_uniform demo_port 2 4"
    by (auto simp: rx_uniform_def demo_port_def demo_ring_def less_Suc_eq nth_Cons')
  have last: "2 = Suc (unat (port_last_rx_ring demo_port))" by (simp add: demo_port_def)
  have buf: "nmslot_to_buf 0x7f0000000000 1 3 4 = Some 0x7f0000003800"
    by (simp add: nmslot_to_buf_def Let_def in_int_def)
  show ?thesis
    using init_rings_addresses [OF demo_page_map uni last _ _ _ _ run, of 1 3] run buf
    by (auto simp: demo_port_def demo_ring_def demo_slot_def demo_host_def)
qed

text \<open>
  A kernel whose receive sync leaves what the user owns alone: the sizes and the cursors of the
  rings.
\<close>

definition cursors :: "port \<Rightarrow> (u32 \<times> u32 \<times> u32) list" where
  "cursors P = map (\<lambda>r. (ring_num_slots r, ring_head r, ring_cur r)) (port_rx_rings P)"

definition rxsync_keeps :: "host \<Rightarrow> bool" where
  "rxsync_keeps H \<longleftrightarrow> (\<forall>h P. cursors (snd (h_rxsync H h P)) = cursors P)"

definition flushed :: "u32 \<times> u32 \<times> u32 \<Rightarrow> u32 \<times> u32 \<times> u32" where
  "flushed c = (fst c, fst c - 1, fst c - 1)"

lemma length_cursors: "length (cursors P) = length (port_rx_rings P)"
  by (simp add: cursors_def)

lemma flush_rings_value:
  assumes "rxsync_keeps H"
  shows "set ris \<subseteq> {..<length (cursors P)} \<Longrightarrow> distinct ris \<Longrightarrow>
    \<exists>P'. fst (run_state (flush_rings H ris P) h) = Inr P' \<and> length (cursors P') = length (cursors P) \<and>
      (\<forall>ri < length (cursors P). cursors P' ! ri =
        (if ri \<in> set ris then flushed (cursors P ! ri) else cursors P ! ri))"
proof (induction ris arbitrary: P h)
  case (Cons ri ris)
  let ?r = "port_rx_rings P ! ri"
  let ?P = "put_rx_ring P ri (?r\<lparr>ring_cur := ring_num_slots ?r - 1, ring_head := ring_num_slots ?r - 1\<rparr>)"
  obtain x P1 where sync: "h_rxsync H h ?P = (x, P1)" by (rule prod.exhaust)
  have ri: "ri < length (port_rx_rings P)" "distinct ris" "ri \<notin> set ris"
    using Cons.prems by (auto simp: length_cursors)
  have "cursors ?P = (cursors P)[ri := flushed (cursors P ! ri)]"
    using ri(1) by (simp add: cursors_def put_rx_ring_def map_update flushed_def)
  moreover have "cursors P1 = cursors ?P"
    using assms sync unfolding rxsync_keeps_def by (metis snd_conv)
  ultimately have cur: "cursors P1 = (cursors P)[ri := flushed (cursors P ! ri)]" by simp
  then have "set ris \<subseteq> {..<length (cursors P1)}" using Cons.prems(1) by simp
  from Cons.IH [OF this ri(2), of "h @ [RxSync x]"] obtain P' where
    P': "fst (run_state (flush_rings H ris P1) (h @ [RxSync x])) = Inr P'" "length (cursors P') = length (cursors P1)"
    "\<forall>ri < length (cursors P1). cursors P' ! ri =
      (if ri \<in> set ris then flushed (cursors P1 ! ri) else cursors P1 ! ri)"
    by blast
  have "fst (run_state (flush_rings H (ri # ris) P) h) = Inr P'"
    using ri(1) sync P'(1) by (simp add: Let_def)
  moreover have "cursors P' ! rj = (if rj \<in> set (ri # ris) then flushed (cursors P ! rj) else cursors P ! rj)"
    if "rj < length (cursors P)" for rj
    using that P'(3) ri(1,3) by (auto simp: cur nth_list_update length_cursors)
  ultimately show ?case using P'(2) cur by auto
qed simp

text \<open>
  C39. The flush leaves the last receive ring out: it moves the cursors of the rings from the
  first up to but not including the last to their last slots, while the initialisation before and
  the receive loop after it go through the last ring as well. On a port with one ring nothing is
  flushed.
\<close>

theorem flush_misses_last_ring:
  assumes "rxsync_keeps H" and "unat (port_last_rx_ring P) < length (port_rx_rings P)"
    and "run_state (recv_flush H P) h = (x, h')"
  shows "\<exists>P'. x = Inr P' \<and> (\<forall>ri < length (cursors P). cursors P' ! ri =
      (if unat (port_first_rx_ring P) \<le> ri \<and> ri < unat (port_last_rx_ring P)
       then flushed (cursors P ! ri) else cursors P ! ri)) \<and>
    unat (port_last_rx_ring P) \<in> set [0 ..< Suc (unat (port_last_rx_ring P))] \<and>
    (unat (port_first_rx_ring P) \<le> unat (port_last_rx_ring P) \<longrightarrow>
      unat (port_last_rx_ring P) \<in> set (rx_ring_indices P))"
proof -
  let ?ris = "[unat (port_first_rx_ring P) ..< unat (port_last_rx_ring P)]"
  have "set ?ris \<subseteq> {..<length (cursors P)}" using assms(2) by (auto simp: length_cursors)
  from flush_rings_value [OF assms(1) this, of h] assms(3) show ?thesis
    by (auto simp: recv_flush_def rx_ring_indices_def)
qed

theorem flush_misses_last_ring_witness:
  "\<exists>P'. fst (run_state (recv_flush demo_host demo_port) []) = Inr P' \<and>
     cursors P' ! 0 = (4, 3, 3) \<and> cursors P' ! 1 = (4, 0, 0)"
proof -
  obtain x h' where run: "run_state (recv_flush demo_host demo_port) [] = (x, h')" by (rule prod.exhaust)
  have keeps: "rxsync_keeps demo_host" by (simp add: rxsync_keeps_def demo_host_def)
  show ?thesis
    using flush_misses_last_ring [OF keeps _ run] run
    by (auto simp: demo_port_def demo_ring_def cursors_def flushed_def)
qed

subsection \<open>The receive loop\<close>

lemma recv_slot_port:
  "obeys port_proto PortOpen (recv_slot H no_p2pmem buf ri r) (\<lambda>x q. q = PortOpen \<and> (\<forall>e v. x = Inl e \<longrightarrow> e \<noteq> Returned v))"
  unfolding recv_slot_def dump_slot_def
  by (auto simp: obeys_simps Let_def split: option.splits sum.splits
      intro!: obeys_bind obeys_mono [OF phy_addr_port])

lemma drain_ring_port:
  "obeys port_proto PortOpen (drain_ring H no_p2pmem buf ri fuel r)
     (\<lambda>x q. q = PortOpen \<and> (\<forall>e v. x = Inl e \<longrightarrow> e \<noteq> Returned v))"
  by (induction fuel arbitrary: r)
    (auto simp: obeys_simps split: sum.splits intro!: obeys_bindI [OF recv_slot_port])

lemma drain_rings_port:
  "obeys port_proto PortOpen (drain_rings H no_p2pmem buf fuel ris P)
     (\<lambda>x q. q = PortOpen \<and> (\<forall>e v. x = Inl e \<longrightarrow> e \<noteq> Returned v))"
  by (induction ris arbitrary: P)
    (auto simp: obeys_simps split: sum.splits intro!: obeys_bindI [OF drain_ring_port])

text \<open>Every return of the loop comes from a failed sync, if \<open>poll\<close> behaves as documented.\<close>

lemma recv_loop_port:
  "obeys port_proto PortOpen (recv_loop H no_p2pmem buf fuel k P)
     (\<lambda>x q. closed_after x q \<and> (\<forall>v. x = Returned v \<longrightarrow> (\<exists>r. v = Some r \<and> sint r < 0)))"
proof (induction k arbitrary: P)
  case (Suc k)
  then show ?case
    by (auto simp: obeys_simps recv_out_def closed_after_def split: sum.splits prod.splits
        intro!: obeys_bind obeys_mono [OF drain_rings_port])
qed (simp add: obeys_simps)

lemma init_slots_port:
  "obeys port_proto PortOpen (init_slots H base ri num is ss)
     (\<lambda>x q. q = PortOpen \<and> (\<forall>e v. x = Inl e \<longrightarrow> e \<noteq> Returned v))"
  by (induction "is" arbitrary: ss)
    (auto simp: obeys_simps split: option.splits sum.splits intro!: obeys_bind obeys_mono [OF phy_addr_port])

lemma init_rings_port:
  "obeys port_proto PortOpen (init_rings H base ris P)
     (\<lambda>x q. q = PortOpen \<and> (\<forall>e v. x = Inl e \<longrightarrow> e \<noteq> Returned v))"
  by (induction ris arbitrary: P)
    (auto simp: obeys_simps Let_def split: sum.splits intro!: obeys_bindI [OF init_slots_port])

lemma flush_rings_port:
  "obeys port_proto PortOpen (flush_rings H ris P)
     (\<lambda>x q. q = PortOpen \<and> (\<forall>e v. x = Inl e \<longrightarrow> e \<noteq> Returned v))"
  by (induction ris arbitrary: P)
    (auto simp: obeys_simps Let_def split: prod.splits intro!: obeys_bind)

lemma recv_setup_port:
  "obeys port_proto PortOpen (recv_setup H fd P) (\<lambda>x q. case x of
     Inl e \<Rightarrow> closed_after e q | Inr y \<Rightarrow> q = PortOpen)"
  unfolding recv_setup_def init_nm_rx_ring_for_phy_def recv_flush_def
  by (auto simp: obeys_simps closed_after_def split: sum.splits
      intro!: obeys_bind obeys_mono [OF phy_addr_port] obeys_mono [OF init_rings_port]
        obeys_mono [OF flush_rings_port])

lemma recv_main_port: "obeys port_proto PortClosed (recv_main H fuel k argv) closed_after"
  unfolding recv_main_def
  by (auto simp: obeys_simps split: option.splits sum.splits prod.splits
      intro!: obeys_bind obeys_mono [OF recv_setup_port] obeys_mono [OF recv_loop_port])

interpretation recv_tool: netmap_client "\<lambda>argv. recv_main H fuel k argv" for H fuel k
  by unfold_locales (rule recv_main_port)

lemma recv_loop_last:
  assumes "\<And>h P. - 1 \<le> sint (fst (h_poll H h P))"
  shows "obeys whole_trace xs (recv_loop H no_p2pmem buf fuel k P)
    (\<lambda>x ys. \<forall>v. x = Returned v \<longrightarrow>
      (\<exists>zs r. v = Some r \<and> sint r < 0 \<and> ys = zs @ [RxSync r, NmClose]))"
proof (induction k arbitrary: P xs)
  case (Suc k)
  have drain: "obeys whole_trace ys (drain_rings H no_p2pmem buf fuel ris P)
      (\<lambda>x zs. \<forall>e v. x = Inl e \<longrightarrow> e \<noteq> Returned v)" for ys ris P
  proof -
    have res: "\<forall>e v. x = Inl e \<longrightarrow> e \<noteq> Returned v"
      if "run_state (drain_rings H no_p2pmem buf fuel ris P) h = (x, h')" for h h' x
      using obeys_ends [OF drain_rings_port that] by auto
    have "obeys whole_trace ys (drain_rings H no_p2pmem buf fuel ris P)
        (\<lambda>x zs. True \<and> (\<forall>e v. x = Inl e \<longrightarrow> e \<noteq> Returned v))"
      by (rule obeys_result [OF whole_trace_any [OF drain_rings_port]]) (erule res)
    then show ?thesis by simp
  qed
  have poll: "(sint (fst (h_poll H h P)) < - 1) = False" for h P
    using assms [of h P] by simp
  let ?Q = "\<lambda>x ys. \<forall>v. x = Returned v \<longrightarrow>
      (\<exists>zs r. v = Some r \<and> sint r < 0 \<and> ys = zs @ [RxSync r, NmClose])"
  have rest: "obeys whole_trace ys (drain_rings H no_p2pmem buf fuel ris P)
      (\<lambda>x q. obeys whole_trace q (case x of Inl e \<Rightarrow> State_Monad.return e
        | Inr P3 \<Rightarrow> recv_loop H no_p2pmem buf fuel k P3) ?Q)"
    for ys ris P
    by (rule obeys_mono [OF drain]) (auto simp: obeys_simps split: sum.splits intro: Suc.IH)
  show ?case
    by (auto simp: obeys_simps recv_out_def split_beta poll
        whole_trace_step [of xs] whole_trace_step [of "xs @ _"]
        intro!: obeys_bind rest)
qed (simp add: obeys_simps)

text \<open>
  The receive loop has one way out. A failed \<open>poll\<close> is not noticed, since -1 is not below
  -1: as long as \<open>poll\<close> returns what it is documented to return, the only return of the loop is the
  negative result of a receive sync, directly followed by closing the port.
\<close>

theorem recv_loop_ignores_poll_errors:
  assumes "\<And>h P. - 1 \<le> sint (fst (h_poll H h P))"
    and "run_state (recv_loop H no_p2pmem buf fuel k P) h = (Returned v, h @ evs)"
  shows "\<exists>zs r. v = Some r \<and> sint r < 0 \<and> evs = zs @ [RxSync r, NmClose]"
  using obeys_collectD [OF recv_loop_last [OF assms(1), unfolded whole_trace_def] assms(2)] by simp

definition broken_host :: host where
  "broken_host = demo_host\<lparr>h_poll := (\<lambda>h P. (- 1, P\<lparr>port_rx_rings := map (\<lambda>r. r\<lparr>ring_tail := ring_cur r\<rparr>) (port_rx_rings P)\<rparr>)),
     h_rxsync := (\<lambda>h P. (if h = [] then 0 else - 5, P))\<rparr>"

lemma broken_host_run:
  "\<exists>evs. run_state (recv_loop broken_host True 0 1 (Suc (Suc 0)) demo_port) [] = (Returned (Some (- 5)), [] @ evs)"
proof -
  have idx: "rx_ring_indices (demo_port\<lparr>port_rx_rings := rs\<rparr>) = [0, 1]" for rs
    by (simp add: rx_ring_indices_def demo_port_def upt_rec)
  have neg: "sint (- 5 :: s32) < 0" "\<not> sint (- 1 :: s32) < - 1" by simp_all
  have rings: "port_rx_rings demo_port = [demo_ring, demo_ring]" by (simp add: demo_port_def)
  have fuel: "1 = Suc 0" by simp
  show ?thesis
    unfolding fuel
    by (simp add: broken_host_def idx neg rings demo_host_def recv_out_def put_rx_ring_def)
qed

theorem recv_loop_ignores_poll_errors_witness:
  "\<exists>zs. snd (run_state (recv_loop broken_host True 0 1 (Suc (Suc 0)) demo_port) []) = zs @ [RxSync (- 5), NmClose]"
proof -
  obtain evs where run: "run_state (recv_loop broken_host True 0 1 (Suc (Suc 0)) demo_port) [] =
      (Returned (Some (- 5)), [] @ evs)"
    using broken_host_run by blast
  have "- 1 \<le> sint (fst (h_poll broken_host h P))" for h P
    by (simp add: broken_host_def)
  from recv_loop_ignores_poll_errors [OF this run] run show ?thesis by auto
qed

end
