(* ===== verification/Tool_Resources.thy ===== *)
theory Tool_Resources
  imports Netmap_Ring Hexdump
begin

section \<open>What the userland tools acquire and release\<close>

text \<open>
  The resources of the tools that work on an NVMe device through unvme: the netmap port, the
  namespace and the buffers allocated from it. The automaton \<open>tool_proto\<close> tracks what is held, the
  latest first, and rejects a trace that uses or releases something not held, or releases anything but
  the latest. A tool whose runs all conform and end with nothing held is a \<open>unvme_tool\<close>; as far as
  the port is concerned it is then a \<open>netmap_client\<close>, too.
\<close>

subsection \<open>The automaton\<close>

datatype tool_resource = PortRes | NsRes ptr | BufRes ptr ptr

definition acquire :: "bool \<Rightarrow> tool_resource \<Rightarrow> tool_resource list \<Rightarrow> tool_resource list option" where
  "acquire ok x xs = (if x \<in> set xs then None else Some (if ok then x # xs else xs))"

definition release_last :: "tool_resource \<Rightarrow> tool_resource list \<Rightarrow> tool_resource list option" where
  "release_last x xs = (case xs of [] \<Rightarrow> None | y # ys \<Rightarrow> if y = x then Some ys else None)"

definition while_held :: "tool_resource \<Rightarrow> tool_resource list \<Rightarrow> tool_resource list option" where
  "while_held x xs = (if x \<in> set xs then Some xs else None)"

fun tool_proto :: "tool_resource list \<Rightarrow> uevent \<Rightarrow> tool_resource list option" where
  "tool_proto xs (NmOpen n ok) = acquire ok PortRes xs"
| "tool_proto xs NmClose = release_last PortRes xs"
| "tool_proto xs (TxSync r) = while_held PortRes xs"
| "tool_proto xs (RxSync r) = while_held PortRes xs"
| "tool_proto xs (Poll r) = while_held PortRes xs"
| "tool_proto xs (UnvmeOpen n ns) = acquire (ns \<noteq> 0) (NsRes ns) xs"
| "tool_proto xs (UnvmeClose ns) = release_last (NsRes ns) xs"
| "tool_proto xs (UnvmeAlloc ns n a) =
     (if NsRes ns \<in> set xs then acquire (a \<noteq> 0) (BufRes ns a) xs else None)"
| "tool_proto xs (UnvmeAllocPram ns n a) =
     (if NsRes ns \<in> set xs then acquire (a \<noteq> 0) (BufRes ns a) xs else None)"
| "tool_proto xs (UnvmeFree ns a) = release_last (BufRes ns a) xs"
| "tool_proto xs (UnvmeRead ns q a l n r) = while_held (BufRes ns a) xs"
| "tool_proto xs (UnvmeWrite ns q a l n r) = while_held (BufRes ns a) xs"
| "tool_proto xs e = Some xs"

lemmas tool_proto_defs = acquire_def release_last_def while_held_def

definition all_released :: "outcome \<Rightarrow> tool_resource list \<Rightarrow> bool" where
  "all_released r xs \<longleftrightarrow> (\<forall>x. r = Returned x \<longrightarrow> xs = [])"

lemma all_released_simps [simp]:
  "all_released (Returned x) xs \<longleftrightarrow> xs = []" "all_released (Exited c) xs" "all_released (Faulted f) xs"
  "all_released Unfinished xs"
  by (auto simp: all_released_def)

text \<open>
  \<open>hexdump (p, len)\<close> as an effect, the bytes at \<open>p\<close> given as a function of the history; None where it
  reads beyond them.
\<close>

definition dump_bytes :: "ptr \<Rightarrow> (uevent list \<Rightarrow> u8 list) \<Rightarrow> s32 \<Rightarrow> (uevent, string option) io" where
  "dump_bytes p bytes len =
     ask (\<lambda>h. hexdump (bytes h) len) (\<lambda>r. Dump p (case r of None \<Rightarrow> [] | Some t \<Rightarrow> t))"

subsection \<open>The port among the resources\<close>

definition port_of :: "tool_resource list \<Rightarrow> port_phase" where
  "port_of xs = (if PortRes \<in> set xs then PortOpen else PortClosed)"

lemma distinct_tool_proto: "tool_proto xs e = Some ys \<Longrightarrow> distinct xs \<Longrightarrow> distinct ys"
  by (cases e) (auto simp: tool_proto_defs split: if_splits list.splits)

lemma tool_proto_port:
  "tool_proto xs e = Some ys \<Longrightarrow> distinct xs \<Longrightarrow> port_proto (port_of xs) e = Some (port_of ys)"
  by (cases e) (auto simp: tool_proto_defs port_of_def split: if_splits list.splits)

lemma tool_run_port:
  "proto_run tool_proto xs evs = Some ys \<Longrightarrow> distinct xs \<Longrightarrow>
     proto_run port_proto (port_of xs) evs = Some (port_of ys)"
proof (induction evs arbitrary: xs)
  case (Cons e es)
  then obtain zs where "tool_proto xs e = Some zs" "proto_run tool_proto zs es = Some ys"
    by (auto split: option.splits)
  with Cons show ?case
    using tool_proto_port distinct_tool_proto by fastforce
qed simp

lemma obeys_tool_port:
  assumes "obeys tool_proto [] m all_released"
  shows "obeys port_proto PortClosed m closed_after"
  unfolding obeys_def
proof
  fix h
  obtain evs xs where "snd (run_state m h) = h @ evs" "proto_run tool_proto [] evs = Some xs"
    "all_released (fst (run_state m h)) xs"
    using assms unfolding obeys_def by blast
  moreover have "proto_run port_proto PortClosed evs = Some (port_of xs)"
    using tool_run_port [of "[]" evs xs] calculation(2) by (simp add: port_of_def)
  moreover have "closed_after (fst (run_state m h)) (port_of xs)"
    using calculation(3) by (auto simp: all_released_def closed_after_def port_of_def)
  ultimately show "\<exists>evs q. snd (run_state m h) = h @ evs \<and>
      proto_run port_proto PortClosed evs = Some q \<and> closed_after (fst (run_state m h)) q"
    by blast
qed

subsection \<open>The interface\<close>

locale unvme_tool =
  fixes run :: "'i \<Rightarrow> (uevent, outcome) io"
  assumes releases: "obeys tool_proto [] (run i) all_released"
begin

lemma returned_released:
  assumes "run_state (run i) h = (Returned x, h @ evs)"
  shows "proto_run tool_proto [] evs = Some []"
  using obeys_run [OF releases assms] by auto

lemma conforms:
  assumes "run_state (run i) h = (r, h @ evs)"
  shows "proto_run tool_proto [] evs \<noteq> None"
  using obeys_run [OF releases assms] by auto

end

sublocale unvme_tool \<subseteq> port: netmap_client run
  by unfold_locales (rule obeys_tool_port [OF releases])

end
