(* ===== verification/Load_Xmit.thy ===== *)
theory Load_Xmit
  imports Tool_Resources Packet
begin

section \<open>load-and-xmit: sending packets read from the device\<close>

text \<open>
  userland-driver/tools/load-and-xmit.c: the options, one round of the inner loop (read a block,
  put it on the transmit ring, synchronise), the two loops, and \<open>main\<close> with its three labels. The
  loops count up to limits that do not change, so they are recursions over the lists of the values
  of \<open>i\<close> and \<open>n\<close>. Progress messages are left out, the hex dumps are kept.
\<close>

subsection \<open>Options\<close>

record load_opts = body +
  lo_use_build_pkt :: bool

definition load_opts_init :: load_opts where
  "load_opts_init = body.extend (zero_body\<lparr>body_batch_size := 1\<rparr>) (load_opts.fields False)"

lemma load_opts_init_simps [simp]:
  "body_nm_name load_opts_init = None" "body_nvme_pci load_opts_init = None"
  "body_nblocks load_opts_init = 0" "body_slba load_opts_init = 0" "body_count load_opts_init = 0"
  "body_usleep load_opts_init = 0" "body_batch_size load_opts_init = 1"
  "\<not> lo_use_build_pkt load_opts_init"
  by (simp_all add: load_opts_init_def body.defs load_opts.defs zero_body_def)

definition load_optstring :: string where
  "load_optstring = ''i:s:n:p:c:u:b''"

text \<open>None where the program returns -1: for a negative number of blocks, and with the usage.\<close>

definition load_option :: "char \<times> string \<Rightarrow> load_opts \<Rightarrow> load_opts option" where
  "load_option oa o1 = (case oa of (ch, optarg) \<Rightarrow>
     if ch = CHR ''i'' then Some (o1\<lparr>body_nm_name := Some optarg\<rparr>)
     else if ch = CHR ''s'' then Some (o1\<lparr>body_slba := word_of_int (strtol optarg 0)\<rparr>)
     else if ch = CHR ''n'' then
       (if sint (atoi optarg) < 0 then None else Some (o1\<lparr>body_nblocks := atoi optarg\<rparr>))
     else if ch = CHR ''p'' then Some (o1\<lparr>body_nvme_pci := Some optarg\<rparr>)
     else if ch = CHR ''c'' then Some (o1\<lparr>body_count := atoi optarg\<rparr>)
     else if ch = CHR ''b'' then Some (o1\<lparr>lo_use_build_pkt := True\<rparr>)
     else if ch = CHR ''u'' then Some (o1\<lparr>body_usleep := atoi optarg\<rparr>)
     else if ch = CHR ''B'' then Some (o1\<lparr>body_batch_size := atoi optarg\<rparr>)
     else None)"

fun load_options :: "(char \<times> string) list \<Rightarrow> load_opts \<Rightarrow> load_opts option" where
  "load_options [] o1 = Some o1"
| "load_options (oa # oas) o1 =
     (case load_option oa o1 of None \<Rightarrow> None | Some o2 \<Rightarrow> load_options oas o2)"

subsection \<open>The loops\<close>

text \<open>How the loops are left: by a jump to \<open>free_out\<close> with \<open>ret\<close>, or by a fault.\<close>

datatype load_exit = FreeOut s32 | Crash fault

text \<open>The slot at the cursor: either it is pointed at the buffer, or a packet is built in its own.\<close>

definition load_slot :: "host \<Rightarrow> bool \<Rightarrow> ptr \<Rightarrow> ring \<Rightarrow> (uevent, fault + ring) io" where
  "load_slot H use_build_pkt buf r = (let cur = ring_cur r in
     if unat cur < length (ring_slots r) then
       (let s = (ring_slots r ! unat cur)\<lparr>slot_len := 1024\<rparr> in
        if \<not> use_build_pkt then do {
          d \<leftarrow> dump_bytes buf (\<lambda>h. h_memory H h buf) 128;
          State_Monad.return (if d = None then Inl OutOfBounds
            else Inr (ring_advance H (r\<lparr>ring_slots := (ring_slots r)
              [unat cur := s\<lparr>slot_ptr := buf, slot_flags := h_ns_indirect H\<rparr>]\<rparr>) cur))
        }
        else do {
          let nm_buf = h_nm_buf H (TxRing 0) (slot_buf_idx s);
          w \<leftarrow> ask (\<lambda>h. load_build_pkt (h_big_endian H) (h_memory H h nm_buf) 1024)
            (\<lambda>x. StoreFrame nm_buf (case x of None \<Rightarrow> [] | Some b \<Rightarrow> b));
          (case w of
             None \<Rightarrow> State_Monad.return (Inl OutOfBounds)
           | Some b \<Rightarrow> do {
               d \<leftarrow> dump_bytes nm_buf (\<lambda>h. b) 128;
               State_Monad.return (if d = None then Inl OutOfBounds
                 else Inr (ring_advance H (r\<lparr>ring_slots := (ring_slots r)[unat cur := s]\<rparr>) cur))
             })
        })
     else State_Monad.return (Inl OutOfBounds))"

fun load_inner :: "host \<Rightarrow> load_opts \<Rightarrow> ptr \<Rightarrow> ptr \<Rightarrow> nat list \<Rightarrow> port \<Rightarrow> s32 \<Rightarrow>
    (uevent, load_exit + port \<times> s32) io" where
  "load_inner H o1 unvme buf [] P ret = State_Monad.return (Inr (P, ret))"
| "load_inner H o1 unvme buf (n # ns) P ret = do {
     let lba = body_slba o1 + of_nat n;
     r \<leftarrow> ask (\<lambda>h. h_unvme_read H h unvme 1 buf lba 1) (\<lambda>r. UnvmeRead unvme 1 buf lba 1 r);
     if sint r < 0 then State_Monad.return (Inl (FreeOut r))
     else (case port_tx_rings P of
         [] \<Rightarrow> State_Monad.return (Inl (Crash OutOfBounds))
       | txring # rest \<Rightarrow>
           if h_nm_ring_empty H txring then State_Monad.return (Inl (FreeOut r))
           else do {
             x \<leftarrow> load_slot H (lo_use_build_pkt o1) buf txring;
             (case x of
                Inl f \<Rightarrow> State_Monad.return (Inl (Crash f))
              | Inr txring' \<Rightarrow> do {
                  (r2, P') \<leftarrow> ask (\<lambda>h. h_txsync H h (P\<lparr>port_tx_rings := txring' # rest\<rparr>))
                    (\<lambda>(r2, _). TxSync r2);
                  if sint r2 < 0 then State_Monad.return (Inl (FreeOut r2))
                  else do {
                    emit (Usleep (body_usleep o1));
                    load_inner H o1 unvme buf ns P' r2
                  }
                })
           })
   }"

fun load_outer :: "host \<Rightarrow> load_opts \<Rightarrow> ptr \<Rightarrow> ptr \<Rightarrow> nat list \<Rightarrow> port \<Rightarrow> s32 \<Rightarrow>
    (uevent, load_exit + port \<times> s32) io" where
  "load_outer H o1 unvme buf [] P ret = State_Monad.return (Inr (P, ret))"
| "load_outer H o1 unvme buf (i # is) P ret = do {
     x \<leftarrow> load_inner H o1 unvme buf [0 ..< nat (sint (body_nblocks o1))] P ret;
     (case x of
        Inl e \<Rightarrow> State_Monad.return (Inl e)
      | Inr (P', ret') \<Rightarrow> load_outer H o1 unvme buf is P' ret')
   }"

subsection \<open>main\<close>

text \<open>The three labels, each falling through to the next.\<close>

definition load_nvme_out :: "s32 \<Rightarrow> (uevent, outcome) io" where
  "load_nvme_out ret = do { emit NmClose; State_Monad.return (Returned (Some ret)) }"

definition load_out :: "ptr \<Rightarrow> s32 \<Rightarrow> (uevent, outcome) io" where
  "load_out unvme ret = do { emit (UnvmeClose unvme); load_nvme_out ret }"

definition load_free_out :: "ptr \<Rightarrow> ptr \<Rightarrow> s32 \<Rightarrow> (uevent, outcome) io" where
  "load_free_out unvme buf ret = do { emit (UnvmeFree unvme buf); load_out unvme ret }"

definition load_main :: "host \<Rightarrow> string list \<Rightarrow> (uevent, outcome) io" where
  "load_main H argv =
     (case load_options (getopt_args load_optstring argv) load_opts_init of
        None \<Rightarrow> State_Monad.return (Returned (Some (- 1)))
      | Some o1 \<Rightarrow> do {
          nm \<leftarrow> ask (\<lambda>h. h_nm_open H h (body_nm_name o1)) (\<lambda>r. NmOpen (body_nm_name o1) (r \<noteq> None));
          (case nm of
             None \<Rightarrow> State_Monad.return (Returned (Some (- 1)))
           | Some nm_desc \<Rightarrow> do {
               unvme \<leftarrow> ask (\<lambda>h. h_unvme_open H h (body_nvme_pci o1))
                 (\<lambda>r. UnvmeOpen (body_nvme_pci o1) r);
               if unvme = 0 then load_nvme_out (- 1)
               else do {
                 buf \<leftarrow> ask (\<lambda>h. h_unvme_alloc H h unvme 4096) (\<lambda>r. UnvmeAlloc unvme 4096 r);
                 if buf = 0 then load_out unvme (- 1)
                 else do {
                   x \<leftarrow> load_outer H o1 unvme buf [0 ..< nat (sint (body_count o1))] nm_desc 0;
                   (case x of
                      Inl (Crash f) \<Rightarrow> State_Monad.return (Faulted f)
                    | Inl (FreeOut ret) \<Rightarrow> load_free_out unvme buf ret
                    | Inr (_, ret) \<Rightarrow> load_free_out unvme buf ret)
                 }
               }
             })
        })"

subsection \<open>Resources\<close>

abbreviation load_held :: "ptr \<Rightarrow> ptr \<Rightarrow> tool_resource list" where
  "load_held unvme buf \<equiv> [BufRes unvme buf, NsRes unvme, PortRes]"

lemma load_slot_holds:
  "obeys tool_proto xs (load_slot H b buf r) (\<lambda>_ ys. ys = xs)"
  unfolding load_slot_def dump_bytes_def
  by (auto simp: obeys_simps Let_def split: option.splits intro!: obeys_bind)

lemma load_inner_holds:
  "obeys tool_proto (load_held unvme buf) (load_inner H o1 unvme buf ns P ret)
     (\<lambda>_ ys. ys = load_held unvme buf)"
  by (induction ns arbitrary: P ret)
    (auto simp: obeys_simps Let_def tool_proto_defs split: list.splits sum.splits prod.splits
      intro!: obeys_bind obeys_mono [OF load_slot_holds])

lemma load_outer_holds:
  "obeys tool_proto (load_held unvme buf) (load_outer H o1 unvme buf is P ret)
     (\<lambda>_ ys. ys = load_held unvme buf)"
  by (induction "is" arbitrary: P ret)
    (auto simp: obeys_simps split: sum.splits prod.splits
      intro!: obeys_bind obeys_mono [OF load_inner_holds])

lemma load_main_releases_all: "obeys tool_proto [] (load_main H argv) all_released"
  unfolding load_main_def load_free_out_def load_out_def load_nvme_out_def
  by (auto simp: obeys_simps tool_proto_defs split: option.splits sum.splits load_exit.splits
      intro!: obeys_bind obeys_mono [OF load_outer_holds])

interpretation load_tool: unvme_tool "\<lambda>argv. load_main H argv" for H
  by unfold_locales (rule load_main_releases_all)

text \<open>
  C20. Whatever fails on the way, load-and-xmit releases what it acquired: when \<open>main\<close>
  returns, the buffer, the namespace and the port have been released in the reverse order of their
  acquisition, each exactly once, and up to then every read went into the buffer while it was held and
  every synchronisation to the open port.
\<close>

theorem load_main_releases:
  assumes "run_state (load_main H argv) h = (Returned x, h @ evs)"
  shows "proto_run tool_proto [] evs = Some [] \<and> port_opens evs = port_closes evs"
  using load_tool.returned_released [OF assms] load_tool.port.returns_closed [OF assms] by blast

subsection \<open>What is read and sent\<close>

text \<open>The reads, by their block address, and the synchronisations of a trace.\<close>

fun load_item :: "uevent \<Rightarrow> u64 option list" where
  "load_item (UnvmeRead ns q a l n r) = [Some l]"
| "load_item (TxSync r) = [None]"
| "load_item e = []"

definition block_items :: "u64 \<Rightarrow> nat \<Rightarrow> u64 option list" where
  "block_items slba n = [Some (slba + of_nat n), None]"

text \<open>A host on which every call of the tool succeeds.\<close>

definition load_served :: "host \<Rightarrow> bool" where
  "load_served H \<longleftrightarrow> netmap_ok H \<and> txsync_serves H \<and>
     (\<forall>h n. \<exists>P. h_nm_open H h n = Some P \<and> tx_ready P) \<and> (\<forall>h n. h_unvme_open H h n \<noteq> 0) \<and>
     (\<forall>h ns n. h_unvme_alloc H h ns n \<noteq> 0) \<and> (\<forall>h ns q a l n. 0 \<le> sint (h_unvme_read H h ns q a l n)) \<and>
     (\<forall>h a. 128 \<le> length (h_memory H h a))"

lemma hexdump_128: "128 \<le> length p \<Longrightarrow> \<exists>s. hexdump p 128 = Some s"
  using hexdump_loop_some [of 0 128 p] by (auto simp: hexdump_def)

lemma load_slot_serves:
  assumes "load_served H" and "ring_wf r"
  shows "obeys (collect load_item) xs (load_slot H b buf r) (\<lambda>x ys. ys = xs \<and>
    (\<exists>r'. x = Inr r' \<and> ring_wf r' \<and> ring_num_slots r' = ring_num_slots r))"
proof -
  have cur: "unat (ring_cur r) < length (ring_slots r)"
    using assms(2) by (simp add: ring_wf_def word_less_nat_alt)
  have mem: "128 \<le> length (h_memory H h a)" and nm: "netmap_ok H" for h a
    using assms(1) by (auto simp: load_served_def)
  have dump: "\<exists>s. hexdump (h_memory H h a) 128 = Some s" for h a
    using mem by (rule hexdump_128)
  have built: "\<exists>p. load_build_pkt be (h_memory H h a) 1024 = Some p \<and> (\<exists>s. hexdump p 128 = Some s)" for be h a
  proof -
    obtain p where p: "load_build_pkt be (h_memory H h a) 1024 = Some p"
      using load.fits [where be = be and len = 1024 and buf = "h_memory H h a"] mem [of h a] by force
    then have "128 \<le> length p"
      using load.build_length [where be = be and len = 1024, OF p] mem [of h a] by simp
    then have "\<exists>s. hexdump p 128 = Some s" by (rule hexdump_128)
    with p show ?thesis by blast
  qed
  have adv: "ring_wf (ring_advance H (r\<lparr>ring_slots := (ring_slots r)[i := s]\<rparr>) (ring_cur r))" for i s
    using ring_advance_wf [OF nm, of "r\<lparr>ring_slots := (ring_slots r)[i := s]\<rparr>" "ring_cur r"] assms(2)
    by (simp add: ring_wf_def)
  show ?thesis
  proof (cases b)
    case True
    have step: "obeys (collect load_item) xs (dump_bytes a (\<lambda>h. p) 128) (\<lambda>x ys. ys = xs \<and> x \<noteq> None)"
      if "\<exists>s. hexdump p 128 = Some s" for a p
      using that unfolding dump_bytes_def by (auto simp: obeys_simps collect_def)
    have build: "obeys (collect load_item) xs
        (ask (\<lambda>h. load_build_pkt (h_big_endian H) (h_memory H h a) 1024) (\<lambda>x. StoreFrame a (g x)))
        (\<lambda>x ys. ys = xs \<and> (\<exists>p. x = Some p \<and> (\<exists>s. hexdump p 128 = Some s)))" for a g
      using built by (auto simp: obeys_simps collect_def)
    show ?thesis
      unfolding load_slot_def Let_def using True cur adv assms(2)
      by (auto simp: obeys_simps intro!: obeys_bindI [OF build] obeys_bindI [OF step])
  next
    case False
    show ?thesis
      unfolding load_slot_def dump_bytes_def Let_def using False cur adv dump
      by (auto simp: obeys_simps collect_def intro!: obeys_bind)
  qed
qed

lemma load_inner_serves:
  assumes "load_served H" and "0 \<le> sint ret" and "tx_ready P"
  shows "obeys (collect load_item) xs (load_inner H o1 unvme buf ns P ret) (\<lambda>x ys.
    (\<exists>P' ret'. x = Inr (P', ret') \<and> 0 \<le> sint ret' \<and> tx_ready P') \<and>
    ys = xs @ concat (map (block_items (body_slba o1)) ns))"
  using assms(2,3)
proof (induction ns arbitrary: P ret xs)
  case Nil
  then show ?case by (simp add: obeys_simps)
next
  case (Cons n ns)
  from Cons.prems(2) obtain txring rest where ring: "port_tx_rings P = txring # rest" "ring_wf txring"
    "ring_cur txring \<noteq> ring_tail txring"
    by (auto simp: tx_ready_def)
  have ok: "netmap_ok H" "txsync_serves H" "0 \<le> sint (h_unvme_read H h ns q a l n)" for h ns q a l n
    using assms(1) by (auto simp: load_served_def)
  have empty: "\<not> h_nm_ring_empty H txring" using ok(1) ring(3) by (simp add: netmap_ok_def)
  have num: "1 < unat (ring_num_slots txring)" using ring(2,3) by (rule ring_two_slots)
  have sync: "0 \<le> sint (fst (h_txsync H h (P\<lparr>port_tx_rings := r' # rest\<rparr>))) \<and>
      tx_ready (snd (h_txsync H h (P\<lparr>port_tx_rings := r' # rest\<rparr>)))"
    if "ring_wf r'" "ring_num_slots r' = ring_num_slots txring" for h r'
    using ok(2) that num unfolding txsync_serves_def by auto
  let ?lba = "body_slba o1 + of_nat n"
  have read: "obeys (collect load_item) xs (ask (\<lambda>h. h_unvme_read H h unvme 1 buf ?lba 1)
      (\<lambda>r. UnvmeRead unvme 1 buf ?lba 1 r)) (\<lambda>r ys. ys = xs @ [Some ?lba] \<and> 0 \<le> sint r)"
    using ok(3) by (simp add: obeys_simps collect_def)
  have send: "obeys (collect load_item) ys (ask (\<lambda>h. h_txsync H h (P\<lparr>port_tx_rings := r' # rest\<rparr>))
      (\<lambda>(r2, _). TxSync r2)) (\<lambda>(r2, P') zs. zs = ys @ [None] \<and> 0 \<le> sint r2 \<and> tx_ready P')"
    if "ring_wf r'" "ring_num_slots r' = ring_num_slots txring" for r' ys
    using sync [OF that] by (auto simp: obeys_simps collect_def split_beta)
  have idle: "obeys (collect load_item) ys (emit (Usleep u)) (\<lambda>_ zs. zs = ys)" for ys u
    by (simp add: obeys_simps collect_def)
  show ?case
    unfolding load_inner.simps Let_def
  proof (rule obeys_bindI [OF read], elim conjE, goal_cases)
    case (1 r ys)
    show ?case
      using 1 ring(1) empty
      by (auto simp: obeys_simps block_items_def
        intro!: obeys_bindI [OF load_slot_serves [OF assms(1) ring(2)]] obeys_bindI [OF send]
          obeys_bindI [OF idle] obeys_mono [OF Cons.IH])
  qed
qed

lemma load_outer_serves:
  assumes "load_served H" and "0 \<le> sint ret" and "tx_ready P"
  shows "obeys (collect load_item) xs (load_outer H o1 unvme buf is P ret) (\<lambda>x ys.
    (\<exists>P' ret'. x = Inr (P', ret') \<and> 0 \<le> sint ret') \<and>
    ys = xs @ concat (map (\<lambda>_. concat (map (block_items (body_slba o1)) [0 ..< nat (sint (body_nblocks o1))])) is))"
  using assms(2,3)
proof (induction "is" arbitrary: P ret xs)
  case (Cons i "is")
  then show ?case
    by (auto simp: obeys_simps intro!: obeys_bindI [OF load_inner_serves [OF assms(1) Cons.prems]]
        obeys_mono [OF Cons.IH])
qed (simp add: obeys_simps)

lemma load_main_serves:
  assumes "load_served H" and "load_options (getopt_args load_optstring argv) load_opts_init = Some o1"
  shows "obeys (collect load_item) [] (load_main H argv) (\<lambda>x ys. (\<exists>r. x = Returned (Some r) \<and> 0 \<le> sint r) \<and>
    ys = concat (map (\<lambda>_. concat (map (block_items (body_slba o1)) [0 ..< nat (sint (body_nblocks o1))]))
      [0 ..< nat (sint (body_count o1))]))"
proof -
  have ok: "\<exists>P. h_nm_open H h n = Some P \<and> tx_ready P" "h_unvme_open H h n \<noteq> 0" "h_unvme_alloc H h ns m \<noteq> 0" for h n ns m
    using assms(1) by (auto simp: load_served_def)
  have nm: "obeys (collect load_item) [] (ask (\<lambda>h. h_nm_open H h n) (\<lambda>r. NmOpen n (r \<noteq> None)))
      (\<lambda>r ys. ys = [] \<and> (\<exists>P. r = Some P \<and> tx_ready P))" for n
    using ok(1) by (simp add: obeys_simps collect_def)
  show ?thesis
    unfolding load_main_def load_free_out_def load_out_def load_nvme_out_def assms(2) option.case
  proof (rule obeys_bindI [OF nm], elim conjE exE, goal_cases)
    case (1 r ys P)
    then show ?case
      using ok(2,3)
      by (auto simp: obeys_simps collect_def intro!: obeys_bind
          obeys_mono [OF load_outer_serves [OF assms(1)]])
  qed
qed

text \<open>
  C19. On a host where every call succeeds, load-and-xmit reads the blocks \<open>slba\<close> to
  \<open>slba + nblocks - 1\<close> in order, as often as the count says, and synchronises the transmit ring after
  every read, so that each packet is handed over before the next read overwrites the buffer; it
  returns a number that is not negative.
\<close>

theorem load_main_sends_blocks:
  assumes "load_served H" and "load_options (getopt_args load_optstring argv) load_opts_init = Some o1"
    and "run_state (load_main H argv) h = (r, h @ evs)"
  shows "(\<exists>x. r = Returned (Some x) \<and> 0 \<le> sint x) \<and>
    concat (map load_item evs) = concat (replicate (nat (sint (body_count o1)))
      (concat (map (\<lambda>n. [Some (body_slba o1 + of_nat n), None]) [0 ..< nat (sint (body_nblocks o1))])))"
  using obeys_collectD [OF load_main_serves [OF assms(1,2)] assms(3)]
  by (simp add: block_items_def [abs_def] map_replicate_const)

lemma demo_load_served: "load_served demo_host"
  using demo_host_ok demo_txsync_serves demo_port_ready
  by (auto simp: load_served_def demo_host_def)

lemma demo_load_opts:
  "load_options (getopt_args load_optstring [''-s0x10'', ''-n'', ''2'', ''-c2'']) load_opts_init =
     Some (load_opts_init\<lparr>body_slba := 16, body_nblocks := 2, body_count := 2\<rparr>)"
  by (simp add: load_optstring_def load_option_def atoi_def strtol_def strtol_base_def is_space_def
      digit_val_def clamp_long_def)

lemma load_main_trace: "\<exists>evs. run_state (load_main H argv) h = (fst (run_state (load_main H argv) h), h @ evs)"
  using obeys_extends [OF load_main_releases_all, of H argv h] by (metis prod.collapse)

theorem load_main_sends_blocks_witness:
  "\<exists>x evs. run_state (load_main demo_host [''-s0x10'', ''-n'', ''2'', ''-c2'']) [] = (Returned (Some x), evs) \<and>
     concat (map load_item evs) = [Some 16, None, Some 17, None, Some 16, None, Some 17, None]"
proof -
  let ?argv = "[''-s0x10'', ''-n'', ''2'', ''-c2'']"
  obtain evs where run: "run_state (load_main demo_host ?argv) [] =
      (fst (run_state (load_main demo_host ?argv) []), [] @ evs)"
    using load_main_trace [of demo_host ?argv "[]"] by blast
  from load_main_sends_blocks [OF demo_load_served demo_load_opts run] run show ?thesis
    by (auto simp: upt_rec numeral_2_eq_2)
qed

theorem load_main_releases_witness:
  "\<exists>x evs. run_state (load_main demo_host [''-s0x10'', ''-n'', ''2'', ''-c2'']) [] = (Returned x, evs) \<and>
     proto_run tool_proto [] evs = Some []"
proof -
  let ?argv = "[''-s0x10'', ''-n'', ''2'', ''-c2'']"
  obtain evs where run: "run_state (load_main demo_host ?argv) [] =
      (fst (run_state (load_main demo_host ?argv) []), [] @ evs)"
    using load_main_trace [of demo_host ?argv "[]"] by blast
  moreover obtain x where "fst (run_state (load_main demo_host ?argv) []) = Returned x"
    using obeys_collectD [OF load_main_serves [OF demo_load_served demo_load_opts] run] by blast
  ultimately show ?thesis using load_main_releases [of demo_host ?argv "[]" x evs] by auto
qed

subsection \<open>Which options are accepted\<close>

lemma load_option_keeps:
  assumes "load_option (c, a) o1 = Some o2" and "c \<noteq> CHR ''B''"
  shows "body_batch_size o2 = body_batch_size o1 \<and> (0 \<le> sint (body_nblocks o1) \<longrightarrow> 0 \<le> sint (body_nblocks o2))"
  using assms unfolding load_option_def by (auto split: if_splits)

lemma load_options_keeps:
  assumes "load_options oas o1 = Some o2" and "\<forall>(c, a) \<in> set oas. c \<noteq> CHR ''B''"
  shows "body_batch_size o2 = body_batch_size o1 \<and> (0 \<le> sint (body_nblocks o1) \<longrightarrow> 0 \<le> sint (body_nblocks o2))"
  using assms
proof (induction oas o1 rule: load_options.induct)
  case (2 oa oas o1)
  obtain c a where oa: "oa = (c, a)" by (rule prod.exhaust)
  with 2 show ?case using load_option_keeps [of c a o1] by (auto split: option.splits)
qed simp

text \<open>
  Every command line load-and-xmit accepts leaves the batch size at 1 and the number of
  blocks not negative. The option \<open>-B\<close>, which the usage offers for the batch size, is one of those it
  refuses: it is missing from the option string, so it ends the program with the usage.
\<close>

theorem load_options_accepted:
  assumes "load_options (getopt_args load_optstring argv) load_opts_init = Some o1"
  shows "body_batch_size o1 = 1 \<and> 0 \<le> sint (body_nblocks o1) \<and> ''-B'' # sz # argv' \<noteq> argv"
proof -
  have look: "opt_lookup load_optstring CHR ''B'' = None"
    by (simp add: load_optstring_def)
  have "\<forall>(c, a) \<in> set (getopt_args load_optstring argv). c \<noteq> CHR ''B''"
    using getopt_chars(1) [of load_optstring argv] look by fastforce
  from load_options_keeps [OF assms this]
  have "body_batch_size o1 = 1 \<and> 0 \<le> sint (body_nblocks o1)" by simp
  moreover have "load_options (getopt_args load_optstring (''-B'' # sz # argv')) load_opts_init = None"
    using look by (simp add: load_option_def)
  ultimately show ?thesis using assms by auto
qed

theorem load_options_accepted_witness:
  "body_batch_size (load_opts_init\<lparr>body_slba := 16, body_nblocks := 2, body_count := 2\<rparr>) = 1"
  using load_options_accepted [OF demo_load_opts] by blast

end
