(* ===== verification/Unvme_Tools.thy ===== *)
theory Unvme_Tools
  imports Tool_Resources
begin

section \<open>The small tools on unvme: store-pkt, read-pkt and dump-nvme\<close>

text \<open>
  userland-driver/tools/store-pkt.c, read-pkt.c and dump-nvme.c: three \<open>main\<close> functions without
  loops. \<open>build_pkt\<close> and \<open>hexdump\<close> of store-pkt.c are in the theories on packets and hex dumps; the
  calls of them in the two first programs are commented out, except for one dump. The local
  variables of dump-nvme that only an option sets are None until then; using one is the fault
  \<open>Uninitialised\<close>. The lists of arguments do not include the name of the program.
\<close>

subsection \<open>The programs\<close>

definition store_main :: "host \<Rightarrow> string list \<Rightarrow> (uevent, outcome) io" where
  "store_main H args = (case args of
     [] \<Rightarrow> State_Monad.return (Returned (Some (- 1)))
   | pci # _ \<Rightarrow> do {
       unvme \<leftarrow> ask (\<lambda>h. h_unvme_open H h (Some pci)) (\<lambda>r. UnvmeOpen (Some pci) r);
       if unvme = 0 then State_Monad.return (Returned (Some (- 1)))
       else do {
         dst \<leftarrow> ask (\<lambda>h. h_unvme_alloc_pram H h unvme 4096) (\<lambda>r. UnvmeAllocPram unvme 4096 r);
         if dst = 0 then do {
           emit (UnvmeClose unvme);
           State_Monad.return (Returned (Some (- 1)))
         }
         else do {
           ret \<leftarrow> ask (\<lambda>h. h_unvme_write H h unvme 1 dst 1 1) (\<lambda>r. UnvmeWrite unvme 1 dst 1 1 r);
           emit (UnvmeFree unvme dst);
           emit (UnvmeClose unvme);
           State_Monad.return (Returned (Some ret))
         }
       }
     })"

definition read_main :: "host \<Rightarrow> string list \<Rightarrow> (uevent, outcome) io" where
  "read_main H args = (case args of
     [] \<Rightarrow> State_Monad.return (Returned (Some (- 1)))
   | pci # _ \<Rightarrow> do {
       unvme \<leftarrow> ask (\<lambda>h. h_unvme_open H h (Some pci)) (\<lambda>r. UnvmeOpen (Some pci) r);
       if unvme = 0 then State_Monad.return (Returned (Some (- 1)))
       else do {
         dst \<leftarrow> ask (\<lambda>h. h_unvme_alloc_pram H h unvme 4096) (\<lambda>r. UnvmeAllocPram unvme 4096 r);
         if dst = 0 then do {
           emit (UnvmeClose unvme);
           State_Monad.return (Returned (Some (- 1)))
         }
         else do {
           d \<leftarrow> dump_bytes dst (\<lambda>h. h_memory H h dst) 128;
           State_Monad.return (if d = None then Faulted OutOfBounds else Returned (Some 0))
         }
       }
     })"

record dump_opts =
  do_pci :: "string option"
  do_slba :: "u64 option"
  do_nblocks :: "u64 option"

definition dump_opts_init :: dump_opts where
  "dump_opts_init = \<lparr>do_pci = None, do_slba = None, do_nblocks = None\<rparr>"

definition dump_optstring :: string where
  "dump_optstring = ''p:s:n:''"

fun dump_options :: "(char \<times> string) list \<Rightarrow> dump_opts \<Rightarrow> dump_opts option" where
  "dump_options [] o1 = Some o1"
| "dump_options ((ch, optarg) # oas) o1 =
     (if ch = CHR ''p'' then dump_options oas (o1\<lparr>do_pci := Some optarg\<rparr>)
      else if ch = CHR ''s'' then dump_options oas (o1\<lparr>do_slba := Some (word_of_int (strtol optarg 0))\<rparr>)
      else if ch = CHR ''n'' then dump_options oas (o1\<lparr>do_nblocks := Some (word_of_int (strtol optarg 0))\<rparr>)
      else None)"

text \<open>
  After the options. The number of blocks is passed on as a 32-bit number to \<open>unvme_read\<close>, and the
  number of bytes as an \<open>int\<close> to \<open>hexdump\<close>; what \<open>unvme_read\<close> returns is not looked at.
\<close>

definition dump_device :: "host \<Rightarrow> string \<Rightarrow> u64 option \<Rightarrow> u64 option \<Rightarrow> (uevent, outcome) io" where
  "dump_device H pci slba nblocks = do {
     unvme \<leftarrow> ask (\<lambda>h. h_unvme_open H h (Some pci)) (\<lambda>r. UnvmeOpen (Some pci) r);
     if unvme = 0 then State_Monad.return (Returned (Some (- 1)))
     else (case nblocks of
         None \<Rightarrow> State_Monad.return (Faulted Uninitialised)
       | Some n \<Rightarrow> do {
           buf \<leftarrow> ask (\<lambda>h. h_unvme_alloc H h unvme (n * 512)) (\<lambda>r. UnvmeAlloc unvme (n * 512) r);
           if buf = 0 then do {
             emit (UnvmeClose unvme);
             State_Monad.return (Returned (Some 0))
           }
           else (case slba of
               None \<Rightarrow> State_Monad.return (Faulted Uninitialised)
             | Some lba \<Rightarrow> do {
                 _ \<leftarrow> ask (\<lambda>h. h_unvme_read H h unvme 0 buf lba (ucast n))
                   (\<lambda>r. UnvmeRead unvme 0 buf lba (ucast n) r);
                 d \<leftarrow> dump_bytes buf (\<lambda>h. h_memory H h buf) (ucast (n * 512));
                 if d = None then State_Monad.return (Faulted OutOfBounds)
                 else do {
                   emit (UnvmeFree unvme buf);
                   emit (UnvmeClose unvme);
                   State_Monad.return (Returned (Some 0))
                 }
               })
         })
   }"

definition dump_main :: "host \<Rightarrow> string list \<Rightarrow> (uevent, outcome) io" where
  "dump_main H args =
     (case dump_options (getopt_args dump_optstring args) dump_opts_init of
        None \<Rightarrow> State_Monad.return (Returned (Some (- 1)))
      | Some o1 \<Rightarrow> (case do_pci o1 of
          None \<Rightarrow> State_Monad.return (Faulted Uninitialised)
        | Some pci \<Rightarrow> dump_device H pci (do_slba o1) (do_nblocks o1)))"

subsection \<open>Resources\<close>

lemma store_main_releases: "obeys tool_proto [] (store_main H args) all_released"
  unfolding store_main_def
  by (auto simp: obeys_simps tool_proto_defs split: list.splits intro!: obeys_bind)

lemma dump_device_releases: "obeys tool_proto [] (dump_device H pci slba nblocks) all_released"
  unfolding dump_device_def dump_bytes_def
  by (auto simp: obeys_simps tool_proto_defs split: option.splits intro!: obeys_bind)

lemma dump_main_releases: "obeys tool_proto [] (dump_main H args) all_released"
  unfolding dump_main_def
  by (auto simp: obeys_simps dump_device_releases split: option.splits)

interpretation store_tool: unvme_tool "\<lambda>args. store_main H args" for H
  by unfold_locales (rule store_main_releases)

interpretation dump_tool: unvme_tool "\<lambda>args. dump_main H args" for H
  by unfold_locales (rule dump_main_releases)

subsection \<open>What the programs do to the device\<close>

fun stores_packet :: "uevent \<Rightarrow> bool" where
  "stores_packet (StoreFrame p b) = True"
| "stores_packet (StoreByte p b) = True"
| "stores_packet (Memset p b n) = True"
| "stores_packet e = False"

fun device_item :: "uevent \<Rightarrow> (bool \<times> u64 \<times> u32) list" where
  "device_item (UnvmeRead ns q a l n r) = [(False, l, n)]"
| "device_item (UnvmeWrite ns q a l n r) = [(True, l, n)]"
| "device_item e = (if stores_packet e then [(True, 0, 0)] else [])"

lemma store_main_items:
  "obeys (collect device_item) [] (store_main H args) (\<lambda>r xs. xs = [] \<and> r = Returned (Some (- 1)) \<or>
     xs = [(True, 1, 1)])"
  unfolding store_main_def
  by (auto simp: obeys_simps collect_def split: list.splits intro!: obeys_bind)

text \<open>
  The userland store-pkt stores no packet: with the call of \<open>build_pkt\<close> commented out, it
  puts nothing into the buffer it allocated before it has the device write it, as one block, to block
  1. Otherwise it is careful: it writes at most once, a failure before the write gives -1, and when it
  returns it has released the buffer and the device in the reverse order.
\<close>

theorem store_main_writes_no_packet:
  assumes "run_state (store_main H args) h = (Returned x, h @ evs)"
  shows "(concat (map device_item evs) = [] \<and> x = Some (- 1) \<or> concat (map device_item evs) = [(True, 1, 1)]) \<and>
    (\<forall>e \<in> set evs. \<not> stores_packet e) \<and> proto_run tool_proto [] evs = Some []"
proof -
  have "obeys (watch (\<lambda>e. \<not> stores_packet e)) () (store_main H args) (\<lambda>r _. True)"
    unfolding store_main_def
    by (auto simp: obeys_simps watch_def split: list.splits intro!: obeys_bind)
  from obeys_watchD [OF this assms] obeys_collectD [OF store_main_items assms]
    store_tool.returned_released [OF assms]
  show ?thesis by auto
qed

theorem store_main_writes_no_packet_witness:
  "\<exists>evs. run_state (store_main demo_host [''05:00.0'']) [] = (Returned (Some 0), [] @ evs) \<and>
     (\<forall>e \<in> set evs. \<not> stores_packet e) \<and> UnvmeWrite 0x100 1 0x300 1 1 0 \<in> set evs"
proof -
  let ?evs = "[UnvmeOpen (Some ''05:00.0'') 0x100, UnvmeAllocPram 0x100 4096 0x300,
    UnvmeWrite 0x100 1 0x300 1 1 0, UnvmeFree 0x100 0x300, UnvmeClose 0x100]"
  have run: "run_state (store_main demo_host [''05:00.0'']) [] = (Returned (Some 0), [] @ ?evs)"
    by (simp add: store_main_def demo_host_def)
  with store_main_writes_no_packet [OF run] show ?thesis by (intro exI [of _ ?evs]) simp
qed

text \<open>
  read-pkt neither reads nor cleans up: its way to the return value 0 does not call the
  device, shows the fresh buffer, and leaves the buffer and the device held.
\<close>

theorem read_main_leaks:
  assumes "run_state (read_main H args) h = (Returned (Some 0), h @ evs)"
  shows "\<exists>ns a. proto_run tool_proto [] evs = Some [BufRes ns a, NsRes ns] \<and>
    concat (map device_item evs) = []"
proof -
  have held: "obeys tool_proto [] (read_main H args) (\<lambda>r xs. r = Returned (Some 0) \<longrightarrow>
      (\<exists>ns a. xs = [BufRes ns a, NsRes ns]))"
    unfolding read_main_def dump_bytes_def
    by (auto simp: obeys_simps tool_proto_defs split: list.splits intro!: obeys_bind)
  have items: "obeys (collect device_item) [] (read_main H args) (\<lambda>r xs. xs = [])"
    unfolding read_main_def dump_bytes_def
    by (auto simp: obeys_simps collect_def split: list.splits intro!: obeys_bind)
  show ?thesis
    using obeys_run [OF held assms] obeys_collectD [OF items assms] by auto
qed

lemma demo_hexdump: "\<exists>s. hexdump (replicate 4096 0) 128 = Some s"
  using hexdump_loop_some [of 0 128 "replicate 4096 0"] by (auto simp: hexdump_def)

theorem read_main_leaks_witness:
  "\<exists>evs ns a. run_state (read_main demo_host [''05:00.0'']) [] = (Returned (Some 0), [] @ evs) \<and>
     proto_run tool_proto [] evs = Some [BufRes ns a, NsRes ns]"
proof -
  obtain s where s: "hexdump (replicate 4096 0) 128 = Some s" using demo_hexdump by blast
  let ?evs = "[UnvmeOpen (Some ''05:00.0'') 0x100, UnvmeAllocPram 0x100 4096 0x300, Dump 0x300 s]"
  have run: "run_state (read_main demo_host [''05:00.0'']) [] = (Returned (Some 0), [] @ ?evs)"
    using s by (simp add: read_main_def dump_bytes_def demo_host_def)
  from read_main_leaks [OF run] run show ?thesis by blast
qed

subsection \<open>dump-nvme\<close>

lemma bytes_of_blocks:
  assumes "unat (n :: u64) * 512 < 2 ^ 31"
  shows "nat (sint (ucast (n * 512) :: s32)) = unat n * 512" and "unat (ucast n :: u32) = unat n"
proof -
  have u: "unat (n * 512) = unat n * 512" using assms by (simp add: unat_word_ariths)
  then have v: "unat (ucast (n * 512) :: s32) = unat n * 512"
    using assms by (simp add: unsigned_ucast_eq take_bit_nat_eq_self)
  have small: "signed_take_bit 31 (int k) = int k" if "k < 2 ^ 31" for k
    using that by (simp add: signed_take_bit_int_eq_self)
  have "sint (w :: s32) = signed_take_bit 31 (uint w)" for w by (simp add: sint_uint)
  then have "sint (ucast (n * 512) :: s32) = signed_take_bit 31 (int (unat n * 512))"
    by (simp only: uint_nat v)
  also have "\<dots> = int (unat n * 512)" using assms by (rule small)
  finally have "sint (ucast (n * 512) :: s32) = int (unat n * 512)" .
  then show "nat (sint (ucast (n * 512) :: s32)) = unat n * 512" by (simp only: nat_int)
  show "unat (ucast n :: u32) = unat n"
    using assms by (simp add: unsigned_ucast_eq take_bit_nat_eq_self)
qed

text \<open>The blocks read and the texts shown.\<close>

fun dump_read :: "uevent \<Rightarrow> (u64 \<times> u32 + ptr \<times> string) list" where
  "dump_read (UnvmeRead ns q a l n r) = [Inl (l, n)]"
| "dump_read (Dump p t) = [Inr (p, t)]"
| "dump_read e = []"

definition dump_result :: "host \<Rightarrow> u64 \<Rightarrow> u64 \<Rightarrow> outcome \<Rightarrow> (u64 \<times> u32 + ptr \<times> string) list \<Rightarrow> bool" where
  "dump_result H lba n r xs \<longleftrightarrow> xs = [] \<and> r \<in> {Returned (Some 0), Returned (Some (- 1))} \<or>
     (\<exists>p h. case hexdump (h_memory H h p) (ucast (n * 512)) of
        None \<Rightarrow> r = Faulted OutOfBounds
      | Some t \<Rightarrow> r = Returned (Some 0) \<and> xs = [Inl (lba, ucast n), Inr (p, t)])"

lemma dump_resultI:
  "hexdump (h_memory H h p) (ucast (n * 512)) = None \<Longrightarrow> dump_result H lba n (Faulted OutOfBounds) xs"
  "hexdump (h_memory H h p) (ucast (n * 512)) = Some t \<Longrightarrow>
     dump_result H lba n (Returned (Some 0)) [Inl (lba, ucast n), Inr (p, t)]"
  "dump_result H lba n (Returned (Some 0)) []" "dump_result H lba n (Returned (Some (- 1))) []"
  unfolding dump_result_def
  by (rule disjI2, rule exI [of _ p], rule exI [of _ h], simp)+ simp_all

lemma dump_device_ok:
  "obeys (collect dump_read) [] (dump_device H pci (Some lba) (Some n)) (dump_result H lba n)"
  unfolding dump_device_def dump_bytes_def
  by (auto simp: obeys_simps collect_def dump_resultI intro!: obeys_bind)


lemma demo_dump_opts:
  "dump_options (getopt_args dump_optstring [''-p'', ''05:00.0'', ''-s1'', ''-n8'']) dump_opts_init =
     Some \<lparr>do_pci = Some ''05:00.0'', do_slba = Some 1, do_nblocks = Some 8\<rparr>"
  by (simp add: dump_optstring_def dump_opts_init_def strtol_def strtol_base_def is_space_def
      digit_val_def clamp_long_def)


end
