(* ===== verification/Tool_Safety.thy ===== *)
theory Tool_Safety
  imports Recv_Pram Load_Xmit Xmit_Pram
begin

section \<open>The netmap tools do not go wrong\<close>

text \<open>
  A typing of the memory the tools share with the kernel: every ring of a port is well formed
  (\<open>ring_wf\<close>), its slots have their place in the mapping, and the rings the port names exist. Every operation of the
  tools keeps it, so that on a kernel that keeps it too none of the three tools ever leaves an array, whatever
  the calls answer and however often their loops run.
\<close>

subsection \<open>The typing\<close>

definition rx_typed :: "port \<Rightarrow> bool" where
  "rx_typed P \<longleftrightarrow> unat (port_last_rx_ring P) < length (port_rx_rings P) \<and>
     (\<forall>r \<in> set (port_rx_rings P). ring_wf r \<and> length (port_rx_rings P) * unat (ring_num_slots r) \<le> 32768)"

definition tx_typed :: "port \<Rightarrow> bool" where
  "tx_typed P \<longleftrightarrow> port_tx_rings P \<noteq> [] \<and> (\<forall>r \<in> set (port_tx_rings P). ring_wf r)"

definition port_typed :: "port \<Rightarrow> bool" where
  "port_typed P \<longleftrightarrow> rx_typed P \<and> tx_typed P"

text \<open>
  A host that keeps it: ports are opened well typed, a system call on one leaves it so and with as many rings,
  and an address the tools read or write bytes at is one of an object at least as large as a netmap buffer.
\<close>

definition typed_host :: "host \<Rightarrow> bool" where
  "typed_host H \<longleftrightarrow> netmap_ok H \<and> (\<forall>h n P. h_nm_open H h n = Some P \<longrightarrow> port_typed P) \<and>
     (\<forall>h P. port_typed P \<longrightarrow> port_typed (snd (h_txsync H h P)) \<and> port_typed (snd (h_rxsync H h P)) \<and>
        port_typed (snd (h_poll H h P))) \<and>
     (\<forall>h P. length (port_rx_rings (snd (h_rxsync H h P))) = length (port_rx_rings P)) \<and>
     (\<forall>h a. 2048 \<le> length (h_memory H h a))"

definition faultless :: "outcome \<Rightarrow> bool" where
  "faultless x \<longleftrightarrow> (\<forall>f. x \<noteq> Faulted f)"

lemma faultless_simps [simp]:
  "faultless (Returned v)" "faultless (Exited c)" "faultless Unfinished" "\<not> faultless (Faulted f)"
  by (simp_all add: faultless_def)

fun faultless_or :: "('a \<Rightarrow> bool) \<Rightarrow> outcome + 'a \<Rightarrow> bool" where
  "faultless_or Q (Inl x) \<longleftrightarrow> faultless x"
| "faultless_or Q (Inr y) \<longleftrightarrow> Q y"

lemma phy_addr_yields: "yields (phy_addr H v) (faultless_or (\<lambda>a. True))"
  unfolding phy_addr_def
  by (auto simp: yields_simps Let_def split: prod.splits intro!: yields_bind)

lemma hexdump_loop_total: "n + k \<le> length p \<Longrightarrow> hexdump_loop p n k \<noteq> None"
proof (induction k arbitrary: n)
  case (Suc k)
  then obtain rest where "hexdump_loop p (n + 1) k = Some rest" by (metis Suc_eq_plus1 add_Suc_shift option.exhaust)
  with Suc.prems show ?case by simp
qed simp

lemma hexdump_total:
  assumes "nat (sint len) \<le> length p"
  shows "hexdump p len \<noteq> None" "recv_hexdump p len \<noteq> None"
  using hexdump_loop_total [of 0 "nat (sint len)" p] assms
  by (auto simp: hexdump_def recv_hexdump_def)

subsection \<open>recv-to-pram\<close>

lemma nmslot_to_buf_defined:
  assumes "ri < rings" and "idx < num" and "rings * num \<le> 32768"
  shows "nmslot_to_buf base (of_nat ri) (of_nat idx) (of_nat num) \<noteq> None"
  using nmslot_to_buf_value(1) [OF assms, of 0] by (auto simp: nmslot_to_buf_def Let_def split: if_splits)

lemma rx_typed_ring:
  assumes "rx_typed P" and "ri < length (port_rx_rings P)"
  shows "ring_wf (port_rx_rings P ! ri)"
    and "length (port_rx_rings P) * unat (ring_num_slots (port_rx_rings P ! ri)) \<le> 32768"
  using assms by (simp_all add: rx_typed_def)

lemma put_rx_ring_typed:
  assumes "port_typed P" and "ring_wf r" and "ring_num_slots r = ring_num_slots (port_rx_rings P ! ri)"
    and "ri < length (port_rx_rings P)"
  shows "port_typed (put_rx_ring P ri r)"
  using assms set_update_subset_insert [of "port_rx_rings P" ri r]
  by (auto simp: port_typed_def rx_typed_def tx_typed_def put_rx_ring_def)

lemma put_rx_ring_simps [simp]:
  "length (port_rx_rings (put_rx_ring P ri r)) = length (port_rx_rings P)"
  "port_first_rx_ring (put_rx_ring P ri r) = port_first_rx_ring P"
  "port_last_rx_ring (put_rx_ring P ri r) = port_last_rx_ring P"
  by (simp_all add: put_rx_ring_def)

lemma dump_slot_yields:
  assumes "typed_host H"
  shows "yields (dump_slot H p s) (\<lambda>d. d \<noteq> None)"
proof -
  let ?len = "if slot_len s > 128 then 128 else ucast (slot_len s) :: s32"
  have le: "nat (sint ?len) \<le> 128"
  proof (cases "slot_len s > 128")
    case False
    then have "unat (slot_len s) \<le> 128" by (simp add: word_less_nat_alt)
    moreover have "sint (of_nat (unat (slot_len s)) :: s32) = int (unat (slot_len s))"
      using calculation by (intro sint_of_nat_s32) simp
    ultimately have "nat (sint (ucast (slot_len s) :: s32)) \<le> 128" by simp
    with False show ?thesis by (simp only: if_False)
  qed simp
  have "recv_hexdump (h_memory H h p) ?len \<noteq> None" for h
  proof -
    have "2048 \<le> length (h_memory H h p)" using assms by (simp add: typed_host_def)
    with le show ?thesis by (intro hexdump_total) linarith
  qed
  then show ?thesis unfolding dump_slot_def by (simp only: yields_ask not_False_eq_True simp_thms)
qed

text \<open>A slot, with what its ring keeps.\<close>

lemma recv_slot_yields:
  assumes "typed_host H" and "ring_wf r" and "ri < rings" and "rings * unat (ring_num_slots r) \<le> 32768"
  shows "yields (recv_slot H no_p2pmem buf ri r)
    (faultless_or (\<lambda>r'. ring_wf r' \<and> ring_num_slots r' = ring_num_slots r))"
proof -
  have head: "ring_head r < ring_num_slots r" "unat (ring_head r) < length (ring_slots r)"
    using assms(2) by (simp_all add: ring_wf_def word_less_nat_alt)
  have "ring_wf (ring_advance H r (ring_head r))"
    using assms(1,2) head(1) by (intro ring_advance_wf) (simp_all add: typed_host_def)
  moreover obtain pkt where "nmslot_to_buf buf (of_nat ri) (ring_head r) (ring_num_slots r) = Some pkt"
    using nmslot_to_buf_defined [OF assms(3) _ assms(4), of "unat (ring_head r)" buf] head(1)
    by (auto simp: word_less_nat_alt)
  ultimately show ?thesis
    using head(2) unfolding recv_slot_def Let_def
    by (auto simp: yields_simps split: sum.splits
        intro!: yields_bindI [OF phy_addr_yields] yields_bindI [OF dump_slot_yields [OF assms(1)]])
qed

lemma drain_ring_yields:
  assumes "typed_host H" and "ri < rings"
  shows "ring_wf r \<Longrightarrow> rings * unat (ring_num_slots r) \<le> 32768 \<Longrightarrow>
    yields (drain_ring H no_p2pmem buf ri fuel r)
      (faultless_or (\<lambda>r'. ring_wf r' \<and> ring_num_slots r' = ring_num_slots r))"
proof (induction fuel arbitrary: r)
  case (Suc fuel)
  then show ?case
    by (auto simp: yields_simps split: sum.splits
        intro!: yields_bindI [OF recv_slot_yields [OF assms(1) _ assms(2)]] yields_mono [OF Suc.IH])
qed (simp add: yields_simps)

lemma drain_rings_yields:
  assumes "typed_host H"
  shows "port_typed P \<Longrightarrow> set ris \<subseteq> {..< length (port_rx_rings P)} \<Longrightarrow>
    yields (drain_rings H no_p2pmem buf fuel ris P) (faultless_or port_typed)"
proof (induction ris arbitrary: P)
  case (Cons ri ris)
  let ?r = "port_rx_rings P ! ri"
  have ri: "ri < length (port_rx_rings P)" using Cons.prems(2) by simp
  have wf: "ring_wf ?r" "length (port_rx_rings P) * unat (ring_num_slots ?r) \<le> 32768"
    using rx_typed_ring [OF _ ri] Cons.prems(1) by (simp_all add: port_typed_def)
  have rest: "yields (drain_rings H no_p2pmem buf fuel ris (put_rx_ring P ri r')) (faultless_or port_typed)"
    if "ring_wf r'" "ring_num_slots r' = ring_num_slots ?r" for r'
    using Cons.prems that ri by (intro Cons.IH put_rx_ring_typed) auto
  show ?case
    using ri by (auto simp: yields_simps split: sum.splits
        intro!: yields_bindI [OF drain_ring_yields [OF assms ri wf]] rest)
qed (simp add: yields_simps)

lemma rx_ring_indices_typed: "port_typed P \<Longrightarrow> set (rx_ring_indices P) \<subseteq> {..< length (port_rx_rings P)}"
  by (auto simp: rx_ring_indices_def port_typed_def rx_typed_def)

lemma recv_loop_yields:
  assumes "typed_host H"
  shows "port_typed P \<Longrightarrow> yields (recv_loop H no_p2pmem buf fuel k P) faultless"
proof (induction k arbitrary: P)
  case (Suc k)
  have kernel: "port_typed P \<Longrightarrow> port_typed (snd (h_rxsync H h P))" "port_typed P \<Longrightarrow> port_typed (snd (h_poll H h P))"
    for P h using assms by (simp_all add: typed_host_def)
  have round: "yields (drain_rings H no_p2pmem buf fuel (rx_ring_indices P) P) (faultless_or port_typed)"
    if "port_typed P" for P
    using drain_rings_yields [OF assms that rx_ring_indices_typed [OF that]] .
  show ?case
    using Suc.prems
    by (auto simp: yields_simps recv_out_def split_beta kernel split: sum.splits
        intro!: yields_bind [of "ask _ _"] yields_bind [of "emit _"] yields_bindI [OF round] Suc.IH)
qed (simp add: yields_simps)

text \<open>The setup: the addresses, the flush.\<close>

lemma init_slots_yields:
  assumes "ri < rings" and "rings * unat num \<le> 32768"
  shows "set is \<subseteq> {..< unat num} \<Longrightarrow> length slots = unat num \<Longrightarrow>
    yields (init_slots H base ri num is slots) (faultless_or (\<lambda>ss. length ss = unat num))"
proof (induction "is" arbitrary: slots)
  case (Cons i "is")
  have "nmslot_to_buf base (of_nat ri) (of_nat i) num \<noteq> None"
    using nmslot_to_buf_defined [OF assms(1) _ assms(2), of i base] Cons.prems(1) by simp
  then show ?case
    using Cons.prems by (auto simp: yields_simps split: sum.splits
        intro!: yields_bindI [OF phy_addr_yields] Cons.IH)
qed (simp add: yields_simps)

lemma init_rings_yields:
  "port_typed P \<Longrightarrow> set ris \<subseteq> {..< length (port_rx_rings P)} \<Longrightarrow>
    yields (init_rings H base ris P) (faultless_or port_typed)"
proof (induction ris arbitrary: P)
  case (Cons ri ris)
  let ?r = "port_rx_rings P ! ri"
  have ri: "ri < length (port_rx_rings P)" using Cons.prems(2) by simp
  have wf: "ring_wf ?r" "length (port_rx_rings P) * unat (ring_num_slots ?r) \<le> 32768"
    using rx_typed_ring [OF _ ri] Cons.prems(1) by (simp_all add: port_typed_def)
  have slots: "yields (init_slots H base ri (ring_num_slots ?r) [0 ..< unat (ring_num_slots ?r)] (ring_slots ?r))
      (faultless_or (\<lambda>ss. length ss = unat (ring_num_slots ?r)))"
    using wf by (intro init_slots_yields [OF ri]) (auto simp: ring_wf_def)
  have rest: "yields (init_rings H base ris (put_rx_ring P ri (?r\<lparr>ring_slots := ss\<rparr>))) (faultless_or port_typed)"
    if "length ss = unat (ring_num_slots ?r)" for ss
    using Cons.prems that wf ri by (intro Cons.IH put_rx_ring_typed) (auto simp: ring_wf_def)
  show ?case
    using ri by (auto simp: yields_simps Let_def split: sum.splits intro!: yields_bindI [OF slots] rest)
qed (simp add: yields_simps)

lemma flush_rings_yields:
  assumes "typed_host H"
  shows "port_typed P \<Longrightarrow> set ris \<subseteq> {..< length (port_rx_rings P)} \<Longrightarrow>
    yields (flush_rings H ris P) (faultless_or port_typed)"
proof (induction ris arbitrary: P)
  case (Cons ri ris)
  let ?r = "port_rx_rings P ! ri"
  let ?P = "put_rx_ring P ri (?r\<lparr>ring_cur := ring_num_slots ?r - 1, ring_head := ring_num_slots ?r - 1\<rparr>)"
  have ri: "ri < length (port_rx_rings P)" using Cons.prems(2) by simp
  have wf: "ring_wf ?r" using rx_typed_ring [OF _ ri] Cons.prems(1) by (simp add: port_typed_def)
  have "ring_num_slots ?r - 1 < ring_num_slots ?r"
    using ring_wf_pos [OF wf] unat_minus_1 [of "ring_num_slots ?r"] by (simp add: word_less_nat_alt)
  with wf have "port_typed ?P"
    using ri Cons.prems(1) by (intro put_rx_ring_typed) (auto simp: ring_wf_def)
  then have "port_typed (snd (h_rxsync H h ?P))"
    "length (port_rx_rings (snd (h_rxsync H h ?P))) = length (port_rx_rings P)" for h
    using assms(1) by (simp_all add: typed_host_def)
  then have "yields (flush_rings H ris (snd (h_rxsync H h ?P))) (faultless_or port_typed)" for h
    using Cons.prems(2) by (intro Cons.IH) auto
  then show ?case
    using ri by (auto simp: yields_simps Let_def split_beta intro!: yields_bind [of "ask _ _"])
qed (simp add: yields_simps)

lemma recv_setup_yields:
  assumes "typed_host H" and "port_typed P"
  shows "yields (recv_setup H fd P) (faultless_or (\<lambda>(buf, P). port_typed P))"
proof -
  have init: "yields (init_nm_rx_ring_for_phy H buf P) (faultless_or port_typed)" for buf
    unfolding init_nm_rx_ring_for_phy_def
    using assms(2) by (intro init_rings_yields) (auto simp: port_typed_def rx_typed_def)
  have flush: "yields (recv_flush H P) (faultless_or port_typed)" if "port_typed P" for P
    unfolding recv_flush_def
    using that by (intro flush_rings_yields [OF assms(1)]) (auto simp: port_typed_def rx_typed_def)
  show ?thesis
    unfolding recv_setup_def
    by (auto simp: yields_simps split: sum.splits intro!: yields_bind [of "ask _ _"] yields_bind [of "emit _"]
        yields_bindI [OF phy_addr_yields] yields_bindI [OF init] yields_bindI [OF flush])
qed

lemma recv_main_yields:
  assumes "typed_host H"
  shows "yields (recv_main H fuel k argv) faultless"
proof -
  have port: "port_typed P" if "h_nm_open H h n = Some P" for h n P
    using assms(1) that by (simp add: typed_host_def)
  show ?thesis
    unfolding recv_main_def
    by (auto simp: yields_simps port split: option.splits sum.splits prod.splits
        intro!: yields_bind [of "ask _ _"] yields_bind [of "emit _"]
          yields_bindI [OF recv_setup_yields [OF assms port]] recv_loop_yields [OF assms(1)])
qed

subsection \<open>xmit-from-pram\<close>

lemma tx_ring_typed:
  assumes "port_typed P" and "port_tx_rings P = r # rest" and "ring_wf r'"
  shows "port_typed (P\<lparr>port_tx_rings := r' # rest\<rparr>)"
  using assms by (simp add: port_typed_def rx_typed_def tx_typed_def)

lemma build_pkt_total:
  assumes "42 \<le> length buf"
  shows "xmit_build_pkt be buf len \<noteq> None" "\<exists>b. load_build_pkt be buf len = Some b \<and> length b = length buf"
  using xmit.fits [OF assms] load.fits [OF assms] load.build_length by blast+

lemma xmit_loop_yields:
  assumes "typed_host H" and "sint (body_count o1) + max 0 (sint (xo_batch o1)) \<le> 2 ^ 31"
  shows "port_typed P \<Longrightarrow> yields (xmit_loop H o1 paddr fuel n P ret) faultless"
proof (induction fuel arbitrary: n P ret)
  case (Suc fuel)
  obtain txring rest where tx: "port_tx_rings P = txring # rest" "ring_wf txring"
    using Suc.prems by (cases "port_tx_rings P") (auto simp: port_typed_def tx_typed_def)
  obtain txring' where batch: "xmit_batch H (xo_pktlen o1) paddr (nat (sint (xo_batch o1))) txring = Inr txring'"
    "ring_wf txring'"
    using xmit_batch_ok [OF _ tx(2)] assms(1) by (metis typed_host_def)
  have "port_typed (snd (h_txsync H h (P\<lparr>port_tx_rings := txring' # rest\<rparr>)))" for h
    using tx_ring_typed [OF Suc.prems tx(1) batch(2)] assms(1) by (simp add: typed_host_def)
  note next_round = Suc.IH [OF this]
  have bound: "n + max 0 (sint (xo_batch o1)) < 2147483648" if "n < sint (body_count o1)"
    using that assms(2) by simp
  show ?case
    using bound
    by (auto simp: yields_simps tx(1) batch(1) xmit_out_def Let_def split_beta
        intro!: yields_bind [of "ask _ _"] yields_bind [of "emit _"] next_round)
qed (simp add: yields_simps)

lemma xmit_main_yields:
  assumes "typed_host H" and "xmit_options (getopt_args xmit_optstring argv) xmit_opts_init = Some o1"
    and "sint (body_count o1) + max 0 (sint (xo_batch o1)) \<le> 2 ^ 31"
  shows "yields (xmit_main H fuel argv) faultless"
proof -
  have port: "port_typed P" if "h_nm_open H h n = Some P" for h n P
    using assms(1) that by (simp add: typed_host_def)
  have "xmit_build_pkt be (h_memory H h a) len \<noteq> None" for be h a len
  proof -
    have "2048 \<le> length (h_memory H h a)" using assms(1) by (simp add: typed_host_def)
    then show ?thesis by (intro build_pkt_total) linarith
  qed
  then have written: "yields (write_packet H buf len) (\<lambda>w. w \<noteq> None)" for buf len
    by (simp add: write_packet_def yields_simps)
  show ?thesis
    unfolding xmit_main_def assms(2)
    by (auto simp: yields_simps port xmit_out_def split: option.splits sum.splits prod.splits
        intro!: yields_bind [of "ask _ _"] yields_bind [of "emit _"] yields_bindI [OF phy_addr_yields]
          yields_bindI [OF written] xmit_loop_yields [OF assms(1,3)])
qed

subsection \<open>load-and-xmit\<close>

lemma load_slot_yields:
  assumes "typed_host H" and "ring_wf r"
  shows "yields (load_slot H use_build_pkt buf r) (\<lambda>x. \<exists>r'. x = Inr r' \<and> ring_wf r')"
proof -
  have cur: "unat (ring_cur r) < length (ring_slots r)" "ring_cur r < ring_num_slots r"
    using assms(2) by (simp_all add: ring_wf_def word_less_nat_alt)
  have wf: "ring_wf (ring_advance H (r\<lparr>ring_slots := (ring_slots r)[unat (ring_cur r) := s]\<rparr>) (ring_cur r))" for s
    using assms cur(2) by (intro ring_advance_wf) (simp_all add: typed_host_def ring_wf_def)
  have mem: "2048 \<le> length (h_memory H h a)" for h a using assms(1) by (simp add: typed_host_def)
  have dump: "yields (dump_bytes p f 128) (\<lambda>d. d \<noteq> None)" if "\<And>h. 128 \<le> length (f h)" for p f
    using that hexdump_total(1) [of 128] by (simp add: dump_bytes_def yields_simps)
  have own: "yields (dump_bytes buf (\<lambda>h. h_memory H h buf) 128) (\<lambda>d. d \<noteq> None)"
  proof (rule dump)
    show "128 \<le> length (h_memory H h buf)" for h using mem [of h buf] by linarith
  qed
  have build: "yields (ask (\<lambda>h. load_build_pkt be (h_memory H h a) 1024) e)
      (\<lambda>w. \<exists>b. w = Some b \<and> yields (dump_bytes a (\<lambda>h. b) 128) (\<lambda>d. d \<noteq> None))" for be a e
  proof -
    have "\<exists>b. load_build_pkt be (h_memory H h a) 1024 = Some b \<and> 128 \<le> length b" for h
    proof -
      have "42 \<le> length (h_memory H h a)" using mem [of h a] by linarith
      from build_pkt_total(2) [OF this] mem [of h a] show ?thesis by fastforce
    qed
    then show ?thesis using dump by (fastforce simp: yields_simps)
  qed
  show ?thesis
    using cur(1) wf unfolding load_slot_def Let_def
    by (auto simp: yields_simps intro!: yields_bindI [OF own] yields_bindI [OF build] elim!: yields_bindI)
qed

lemma load_inner_yields:
  assumes "typed_host H"
  shows "port_typed P \<Longrightarrow> yields (load_inner H o1 unvme buf ns P ret)
    (\<lambda>x. case x of Inl e \<Rightarrow> \<forall>f. e \<noteq> Crash f | Inr (P', r) \<Rightarrow> port_typed P')"
proof (induction ns arbitrary: P ret)
  case (Cons n ns)
  obtain txring rest where tx: "port_tx_rings P = txring # rest" "ring_wf txring"
    using Cons.prems by (cases "port_tx_rings P") (auto simp: port_typed_def tx_typed_def)
  have "port_typed (snd (h_txsync H h (P\<lparr>port_tx_rings := r' # rest\<rparr>)))" if "ring_wf r'" for r' h
    using tx_ring_typed [OF Cons.prems tx(1) that] assms by (simp add: typed_host_def)
  note next_block = Cons.IH [OF this]
  show ?case
    by (auto simp: yields_simps tx(1) Let_def split_beta
        intro!: yields_bind [of "ask _ _"] yields_bind [of "emit _"]
          yields_bindI [OF load_slot_yields [OF assms tx(2)]] next_block)
qed (simp add: yields_simps)

lemma load_outer_yields:
  assumes "typed_host H"
  shows "port_typed P \<Longrightarrow> yields (load_outer H o1 unvme buf is P ret)
    (\<lambda>x. case x of Inl e \<Rightarrow> \<forall>f. e \<noteq> Crash f | Inr (P', r) \<Rightarrow> port_typed P')"
  by (induction "is" arbitrary: P ret)
    (auto simp: yields_simps split: sum.splits prod.splits intro!: yields_bindI [OF load_inner_yields [OF assms]])

lemma load_main_yields:
  assumes "typed_host H"
  shows "yields (load_main H argv) faultless"
proof -
  have port: "port_typed P" if "h_nm_open H h n = Some P" for h n P
    using assms that by (simp add: typed_host_def)
  show ?thesis
    unfolding load_main_def
    by (auto simp: yields_simps port load_nvme_out_def load_out_def load_free_out_def
        split: option.splits sum.splits prod.splits load_exit.splits
        intro!: yields_bind [of "ask _ _"] yields_bind [of "emit _"] yields_bindI [OF load_outer_yields [OF assms port]])
qed

subsection \<open>No fault\<close>


lemma demo_port_typed: "port_typed demo_port"
  using demo_ring_wf(1) by (simp add: port_typed_def rx_typed_def tx_typed_def demo_port_def demo_ring_def)

lemma demo_txsync_typed:
  assumes "port_typed P"
  shows "port_typed (demo_txsync P)"
proof -
  have "ring_wf (r\<lparr>ring_tail := if ring_cur r = 0 then ring_num_slots r - 1 else ring_cur r - 1\<rparr>)"
    if "ring_wf r" for r
  proof -
    have pos: "0 < unat (ring_num_slots r)" by (rule ring_wf_pos [OF that])
    have "ring_num_slots r - 1 < ring_num_slots r"
      using unat_minus_1 [OF pos] pos by (simp add: word_less_nat_alt)
    moreover have "ring_cur r - 1 < ring_num_slots r" if "ring_cur r \<noteq> 0"
    proof -
      have "0 < unat (ring_cur r)" using that by (simp add: unat_gt_0)
      then have "unat (ring_cur r - 1) = unat (ring_cur r) - 1" by (rule unat_minus_1)
      then show ?thesis using \<open>ring_wf r\<close> unfolding ring_wf_def word_less_nat_alt by linarith
    qed
    ultimately show ?thesis using that by (simp add: ring_wf_def)
  qed
  with assms show ?thesis
    by (auto simp: demo_txsync_def port_typed_def rx_typed_def tx_typed_def)
qed

lemma demo_typed_host: "typed_host demo_host"
  using demo_host_ok demo_port_typed demo_txsync_typed by (simp add: typed_host_def) (simp add: demo_host_def)


end
