(* ===== verification/Recv_Service.thy ===== *)
theory Recv_Service
  imports Tool_Safety
begin

section \<open>recv-to-pram shows what is received\<close>

text \<open>
  What recv-to-pram does on a host that serves it: a round of its receive loop shows every slot the kernel has
  filled, and the program as a whole gets through its setup and through any number of rounds. Both rest on the
  typing of the rings, which rules the faults out, and on the page map, without which \<open>phy_addr\<close> ends the program.
\<close>

subsection \<open>A round of recv-to-pram\<close>

text \<open>The buffers of the filled slots of a ring, in ring order.\<close>

definition received :: "host \<Rightarrow> bool \<Rightarrow> ptr \<Rightarrow> port \<Rightarrow> nat \<Rightarrow> ptr option list" where
  "received H no_p2pmem buf P ri = (let r = port_rx_rings P ! ri in
     map (\<lambda>k. slot_buffer H no_p2pmem buf ri r (ring_index r (unat (ring_cur r)) k)) [0 ..< ring_avail r])"

definition drained :: "ring \<Rightarrow> ring" where
  "drained r = r\<lparr>ring_head := ring_tail r, ring_cur := ring_tail r\<rparr>"

lemma drain_ring_ends:
  assumes "typed_host H" and "no_p2pmem \<or> page_map H f" and "ri < rings"
  shows "ring_wf r \<Longrightarrow> rings * unat (ring_num_slots r) \<le> 32768 \<Longrightarrow>
    yields (drain_ring H no_p2pmem buf ri fuel r) (\<lambda>x. x = Inl Unfinished \<or> (\<exists>r'. x = Inr r'))"
proof (induction fuel arbitrary: r)
  case (Suc fuel)
  have slot: "yields (recv_slot H no_p2pmem buf ri r) (\<lambda>x. \<exists>r'. x = Inr r' \<and> ring_wf r' \<and> ring_num_slots r' = ring_num_slots r)"
  proof -
    have "yields (recv_slot H no_p2pmem buf ri r) (\<lambda>x. \<forall>e. x = Inl e \<longrightarrow> \<not> faultless e)"
      using assms(2) unfolding recv_slot_def Let_def
      by (auto simp: yields_simps page_map_def yields_def [of "phy_addr H _"] split: option.splits intro!: yields_bind)
    note yields_conj [OF this recv_slot_yields [OF assms(1) Suc.prems(1) assms(3) Suc.prems(2)]]
    then show ?thesis by (rule yields_mono) (auto elim: faultless_or.elims)
  qed
  show ?case
    using Suc.prems by (auto simp: yields_simps intro!: yields_bindI [OF slot] Suc.IH)
qed (simp add: yields_simps)

lemma drain_ring_received:
  assumes "typed_host H" and "no_p2pmem \<or> page_map H f" and "32768 \<le> fuel" and "port_typed P"
    and "ri < length (port_rx_rings P)" and "ring_head (port_rx_rings P ! ri) = ring_cur (port_rx_rings P ! ri)"
  shows "obeys (collect dump_item) xs (drain_ring H no_p2pmem buf ri fuel (port_rx_rings P ! ri))
    (\<lambda>x ys. x = Inr (drained (port_rx_rings P ! ri)) \<and> ys = xs @ received H no_p2pmem buf P ri)"
proof -
  let ?r = "port_rx_rings P ! ri"
  have wf: "ring_wf ?r" and fits: "length (port_rx_rings P) * unat (ring_num_slots ?r) \<le> 32768"
    using rx_typed_ring [OF _ assms(5)] assms(4) by (simp_all add: port_typed_def)
  have "1 * unat (ring_num_slots ?r) \<le> length (port_rx_rings P) * unat (ring_num_slots ?r)"
    using assms(5) by (intro mult_right_mono) simp_all
  then have fuel: "ring_avail ?r < fuel" using ring_avail_less [OF wf] fits assms(3) by linarith
  have ends: "x = Inl Unfinished \<or> (\<exists>r'. x = Inr r')"
    if "run_state (drain_ring H no_p2pmem buf ri fuel ?r) h = (x, h')" for h x h'
    using drain_ring_ends [OF assms(1,2,5) wf fits, of buf fuel] that unfolding yields_def by (metis fst_conv)
  have netmap: "netmap_ok H" using assms(1) by (simp add: typed_host_def)
  show ?thesis
    by (rule obeys_mono [OF obeys_result [OF drain_ring_dumps [OF netmap wf assms(6) fuel] ends]])
      (auto simp: drained_def received_def Let_def)
qed

lemma drain_rings_received:
  assumes "typed_host H" and "no_p2pmem \<or> page_map H f" and "32768 \<le> fuel"
  shows "port_typed P \<Longrightarrow> set ris \<subseteq> {..< length (port_rx_rings P)} \<Longrightarrow> distinct ris \<Longrightarrow>
    \<forall>ri \<in> set ris. ring_head (port_rx_rings P ! ri) = ring_cur (port_rx_rings P ! ri) \<Longrightarrow>
    obeys (collect dump_item) xs (drain_rings H no_p2pmem buf fuel ris P)
      (\<lambda>x ys. \<exists>P'. x = Inr P' \<and> port_typed P' \<and> ys = xs @ concat (map (received H no_p2pmem buf P) ris) \<and>
         length (port_rx_rings P') = length (port_rx_rings P) \<and>
         (\<forall>ri < length (port_rx_rings P). port_rx_rings P' ! ri =
           (if ri \<in> set ris then drained (port_rx_rings P ! ri) else port_rx_rings P ! ri)))"
proof (induction ris arbitrary: P xs)
  case (Cons ri ris)
  let ?r = "port_rx_rings P ! ri"
  let ?P = "put_rx_ring P ri (drained ?r)"
  have ri: "ri < length (port_rx_rings P)" "ri \<notin> set ris" using Cons.prems(2,3) by auto
  have "ring_wf ?r" using rx_typed_ring(1) [OF _ ri(1)] Cons.prems(1) by (simp add: port_typed_def)
  then have typed: "port_typed ?P"
    using Cons.prems(1) ri(1) by (intro put_rx_ring_typed) (simp_all add: drained_def ring_wf_def)
  have others: "port_rx_rings ?P ! rj = (if rj = ri then drained ?r else port_rx_rings P ! rj)"
    if "rj < length (port_rx_rings P)" for rj
    using that by (simp add: put_rx_ring_def nth_list_update)
  have lt: "rj < length (port_rx_rings P)" if "rj \<in> set ris" for rj using that Cons.prems(2) by auto
  then have same: "map (received H no_p2pmem buf ?P) ris = map (received H no_p2pmem buf P) ris"
    using ri(2) others by (auto simp: received_def Let_def)
  have heads: "\<forall>rj \<in> set ris. ring_head (port_rx_rings ?P ! rj) = ring_cur (port_rx_rings ?P ! rj)"
    using Cons.prems(4) ri(2) others lt by auto
  have rest: "obeys (collect dump_item) ys (drain_rings H no_p2pmem buf fuel ris ?P)
      (\<lambda>x zs. \<exists>P'. x = Inr P' \<and> port_typed P' \<and> zs = ys @ concat (map (received H no_p2pmem buf P) ris) \<and>
         length (port_rx_rings P') = length (port_rx_rings P) \<and>
         (\<forall>rj < length (port_rx_rings P). port_rx_rings P' ! rj =
           (if rj \<in> set (ri # ris) then drained (port_rx_rings P ! rj) else port_rx_rings P ! rj)))" for ys
    using Cons.IH [OF typed _ _ heads, of ys] Cons.prems(2,3) ri(2) others
    by (auto simp: same elim!: obeys_mono)
  show ?case
    using ri(1) Cons.prems(4)
    by (auto intro!: obeys_bindI [OF drain_ring_received [OF assms Cons.prems(1) ri(1)]] obeys_mono [OF rest])
qed (auto simp: obeys_simps)

text \<open>
  C12. A round of the receive loop comes to its end and shows everything: with rings that are well formed and whose two
  cursors agree, and a page map that answers where one is needed, the buffers dumped are those of all the slots
  the kernel has filled, ring by ring from the first to the last and in ring order, each once; all these rings are
  then empty and the port is well formed again, so that the next round can follow. As many rounds of the inner
  loop as the mapping has buffers are enough.
\<close>

theorem recv_round_shows_all:
  assumes "typed_host H" and "no_p2pmem \<or> page_map H f" and "32768 \<le> fuel" and "port_typed P"
    and "\<forall>r \<in> set (port_rx_rings P). ring_head r = ring_cur r"
    and "run_state (drain_rings H no_p2pmem buf fuel (rx_ring_indices P) P) h = (x, h @ evs)"
  shows "\<exists>P'. x = Inr P' \<and> port_typed P' \<and>
    concat (map dump_item evs) = concat (map (received H no_p2pmem buf P) (rx_ring_indices P)) \<and>
    (\<forall>ri < length (port_rx_rings P). port_rx_rings P' ! ri = (let r = port_rx_rings P ! ri in
       if unat (port_first_rx_ring P) \<le> ri \<and> ri \<le> unat (port_last_rx_ring P)
       then r\<lparr>ring_head := ring_tail r, ring_cur := ring_tail r\<rparr> else r))"
proof -
  have ris: "set (rx_ring_indices P) \<subseteq> {..< length (port_rx_rings P)}" by (rule rx_ring_indices_typed [OF assms(4)])
  moreover have "distinct (rx_ring_indices P)" by (simp add: rx_ring_indices_def)
  moreover have "\<forall>ri \<in> set (rx_ring_indices P). ring_head (port_rx_rings P ! ri) = ring_cur (port_rx_rings P ! ri)"
    using ris assms(5) by (auto simp: subset_iff)
  ultimately have "obeys (collect dump_item) [] (drain_rings H no_p2pmem buf fuel (rx_ring_indices P) P)
      (\<lambda>x ys. \<exists>P'. x = Inr P' \<and> port_typed P' \<and>
         ys = [] @ concat (map (received H no_p2pmem buf P) (rx_ring_indices P)) \<and>
         length (port_rx_rings P') = length (port_rx_rings P) \<and>
         (\<forall>ri < length (port_rx_rings P). port_rx_rings P' ! ri =
           (if ri \<in> set (rx_ring_indices P) then drained (port_rx_rings P ! ri) else port_rx_rings P ! ri)))"
    by (rule drain_rings_received [OF assms(1-4)])
  from obeys_collectD [OF this assms(6)] show ?thesis
    by (auto simp: drained_def rx_ring_indices_def Let_def)
qed

theorem recv_round_shows_all_witness:
  "\<exists>P' evs. run_state (drain_rings demo_host True 0 32768 (rx_ring_indices demo_port) demo_port) [] = (Inr P', evs) \<and>
     concat (map dump_item evs) = replicate 6 (Some 0x7e0000001000) \<and> ring_cur (port_rx_rings P' ! 1) = 3"
proof -
  have idx: "rx_ring_indices demo_port = [0, 1]" by (simp add: rx_ring_indices_def demo_port_def upt_rec)
  have heads: "\<forall>r \<in> set (port_rx_rings demo_port). ring_head r = ring_cur r"
    by (simp add: demo_port_def demo_ring_def)
  obtain x evs where run: "run_state (drain_rings demo_host True 0 32768 (rx_ring_indices demo_port) demo_port) [] =
      (x, [] @ evs)" by (metis append_Nil prod.exhaust)
  have buffers: "received demo_host True 0 demo_port ri = replicate 3 (Some 0x7e0000001000)" if "ri < 2" for ri
    using that demo_ring_wf(2) by (cases ri)
      (auto simp: received_def slot_buffer_def demo_host_def demo_port_def demo_ring_def demo_slot_def ring_index_def
        less_Suc_eq upt_rec numeral_3_eq_3)
  have shown: "concat (map (received demo_host True 0 demo_port) (rx_ring_indices demo_port)) =
      replicate 6 (Some 0x7e0000001000)"
    by (simp add: idx buffers eval_nat_numeral)
  have port: "length (port_rx_rings demo_port) = 2" "port_rx_rings demo_port ! 1 = demo_ring"
    "unat (port_first_rx_ring demo_port) = 0" "unat (port_last_rx_ring demo_port) = 1" "ring_tail demo_ring = 3"
    by (simp_all add: demo_port_def demo_ring_def)
  from recv_round_shows_all [OF demo_typed_host _ _ demo_port_typed heads run, of "\<lambda>_. 0"] obtain P' where
    "x = Inr P'" "concat (map dump_item evs) = replicate 6 (Some 0x7e0000001000)"
    "\<forall>ri < 2. port_rx_rings P' ! ri = (let r = port_rx_rings demo_port ! ri in
      if 0 \<le> ri \<and> ri \<le> 1 then r\<lparr>ring_head := ring_tail r, ring_cur := ring_tail r\<rparr> else r)"
    unfolding shown port(1,3,4) by auto
  moreover from this(3) have "ring_cur (port_rx_rings P' ! 1) = 3" using port(2,5) by (simp add: Let_def)
  ultimately show ?thesis using run by auto
qed

subsection \<open>recv-to-pram as a whole\<close>

text \<open>
  A host that serves it: every call succeeds, the two cursors of a receive ring agree when the port is opened, and the
  kernel, which only moves \<open>tail\<close>, keeps it so.
\<close>

definition cursors_agree :: "port \<Rightarrow> bool" where
  "cursors_agree P \<longleftrightarrow> (\<forall>r \<in> set (port_rx_rings P). ring_head r = ring_cur r)"

definition recv_served :: "host \<Rightarrow> bool" where
  "recv_served H \<longleftrightarrow> typed_host H \<and> (\<exists>f. page_map H f) \<and>
     (\<forall>h n. \<exists>P. h_nm_open H h n = Some P \<and> cursors_agree P) \<and>
     (\<forall>h p. 0 \<le> sint (h_open H h p)) \<and> (\<forall>h n fd. h_mmap H h n fd \<noteq> - 1) \<and>
     (\<forall>h P. 0 \<le> sint (fst (h_rxsync H h P)) \<and> - 1 \<le> sint (fst (h_poll H h P))) \<and>
     (\<forall>h P. cursors_agree P \<longrightarrow> cursors_agree (snd (h_rxsync H h P)) \<and> cursors_agree (snd (h_poll H h P)))"

definition good_port :: "port \<Rightarrow> bool" where
  "good_port P \<longleftrightarrow> port_typed P \<and> cursors_agree P"

definition polls :: "uevent list \<Rightarrow> nat" where
  "polls evs = length (filter (\<lambda>e. \<exists>r. e = Poll r) evs)"

fun poll_item :: "uevent \<Rightarrow> unit list" where
  "poll_item (Poll r) = [()]"
| "poll_item e = []"

lemma polls_collect: "concat (map poll_item evs) = replicate (polls evs) ()"
proof (induction evs)
  case (Cons e evs)
  then show ?case by (cases e) (simp_all add: polls_def)
qed (simp add: polls_def)

text \<open>What a program does to the trace that does not poll.\<close>

definition no_poll :: "uevent \<Rightarrow> bool" where
  "no_poll e \<longleftrightarrow> poll_item e = []"

lemma no_poll_simps [simp]:
  "no_poll (Open x1 x2)" "no_poll (Lseek x3 x4 x5)" "no_poll (ReadEntry x6 x7 x8)" "no_poll (Close x9)"
  "no_poll (Mmap x10 x11 x12)" "no_poll (Memset x13 x14 x15)" "no_poll (StoreByte x16 x17)"
  "no_poll (RxSync x18)" "no_poll (Dump x19 x20)" "no_poll NmClose" "no_poll (NmOpen x21 x22)"
  by (simp_all add: no_poll_def)

lemma obeys_silent:
  assumes "obeys (watch no_poll) () m (\<lambda>_ _. True)" and "yields m Q"
  shows "obeys (collect poll_item) xs m (\<lambda>x ys. ys = xs \<and> Q x)"
  unfolding obeys_def
proof
  fix h
  obtain evs where evs: "snd (run_state m h) = h @ evs" "\<forall>e \<in> set evs. no_poll e"
    using assms(1) unfolding obeys_def by (metis (full_types) proto_run_watch)
  then have "concat (map poll_item evs) = []" by (simp add: no_poll_def)
  moreover have "Q (fst (run_state m h))" using assms(2) by (simp add: yields_def)
  ultimately show "\<exists>evs q. snd (run_state m h) = h @ evs \<and> proto_run (collect poll_item) xs evs = Some q \<and>
      q = xs \<and> Q (fst (run_state m h))"
    using evs(1) by (auto simp: proto_run_collect)
qed

lemmas silent_simps = obeys_simps watch_def Let_def
lemmas silent_ask = obeys_bind [of _ _ "ask _ _"] obeys_bind [of _ _ "emit _"]

lemma phy_addr_silent: "obeys (watch no_poll) () (phy_addr H v) (\<lambda>_ _. True)"
  unfolding phy_addr_def
  by (auto simp: silent_simps split: prod.splits intro!: obeys_bind)

lemma recv_slot_silent: "obeys (watch no_poll) () (recv_slot H no_p2pmem buf ri r) (\<lambda>_ _. True)"
  unfolding recv_slot_def dump_slot_def Let_def
  by (auto simp: silent_simps split: option.splits sum.splits intro!: silent_ask obeys_bindI [OF phy_addr_silent])

lemma drain_ring_silent: "obeys (watch no_poll) () (drain_ring H no_p2pmem buf ri fuel r) (\<lambda>_ _. True)"
  by (induction fuel arbitrary: r)
    (auto simp: obeys_simps split: sum.splits intro!: obeys_bindI [OF recv_slot_silent])

lemma drain_rings_silent: "obeys (watch no_poll) () (drain_rings H no_p2pmem buf fuel ris P) (\<lambda>_ _. True)"
  by (induction ris arbitrary: P)
    (auto simp: obeys_simps split: sum.splits intro!: obeys_bindI [OF drain_ring_silent])

lemma init_slots_silent: "obeys (watch no_poll) () (init_slots H base ri num is ss) (\<lambda>_ _. True)"
  by (induction "is" arbitrary: ss)
    (auto simp: obeys_simps split: option.splits sum.splits intro!: obeys_bindI [OF phy_addr_silent])

lemma init_rings_silent: "obeys (watch no_poll) () (init_rings H base ris P) (\<lambda>_ _. True)"
  by (induction ris arbitrary: P)
    (auto simp: obeys_simps Let_def split: sum.splits intro!: obeys_bindI [OF init_slots_silent])

lemma flush_rings_silent: "obeys (watch no_poll) () (flush_rings H ris P) (\<lambda>_ _. True)"
proof (induction ris arbitrary: P)
  case (Cons ri ris)
  then show ?case by (auto simp: obeys_simps Let_def watch_def [of no_poll] split_beta intro!: obeys_bind)
qed (simp add: obeys_simps)

lemma recv_setup_silent: "obeys (watch no_poll) () (recv_setup H fd P) (\<lambda>_ _. True)"
  unfolding recv_setup_def init_nm_rx_ring_for_phy_def recv_flush_def
  by (auto simp: silent_simps split: sum.splits intro!: silent_ask obeys_bindI [OF phy_addr_silent]
      obeys_bindI [OF init_rings_silent] obeys_bindI [OF flush_rings_silent])

text \<open>With a page map that answers, only a fault ends the setup early.\<close>

fun faulted_or :: "('a \<Rightarrow> bool) \<Rightarrow> outcome + 'a \<Rightarrow> bool" where
  "faulted_or Q (Inl x) \<longleftrightarrow> \<not> faultless x"
| "faulted_or Q (Inr y) \<longleftrightarrow> Q y"

lemma yields_both:
  assumes "yields m (faultless_or Q)" and "yields m (faulted_or R)"
  shows "yields m (\<lambda>x. \<exists>y. x = Inr y \<and> Q y \<and> R y)"
  by (rule yields_mono [OF yields_conj [OF assms]]) (auto elim!: faultless_or.elims)

lemma page_map_yields: "page_map H f \<Longrightarrow> yields (phy_addr H v) (\<lambda>x. x = Inr (f v))"
  by (simp add: page_map_def yields_def)

lemma put_rx_ring_agree:
  "cursors_agree P \<Longrightarrow> ring_head r = ring_cur r \<Longrightarrow> cursors_agree (put_rx_ring P ri r)"
  using set_update_subset_insert [of "port_rx_rings P" ri r]
  by (auto simp: cursors_agree_def put_rx_ring_def)

lemma init_slots_faulted: "page_map H f \<Longrightarrow> yields (init_slots H base ri num is ss) (faulted_or (\<lambda>_. True))"
  by (induction "is" arbitrary: ss)
    (auto simp: yields_simps split: option.splits intro!: yields_bindI [OF page_map_yields])

lemma init_rings_faulted:
  assumes "page_map H f"
  shows "cursors_agree P \<Longrightarrow> yields (init_rings H base ris P) (faulted_or cursors_agree)"
proof (induction ris arbitrary: P)
  case (Cons ri ris)
  have "cursors_agree (put_rx_ring P ri ((port_rx_rings P ! ri)\<lparr>ring_slots := ss\<rparr>))" if "ri < length (port_rx_rings P)" for ss
    using Cons.prems that by (intro put_rx_ring_agree) (auto simp: cursors_agree_def)
  then show ?case
    by (auto simp: yields_simps Let_def split: sum.splits
        intro!: yields_bindI [OF init_slots_faulted [OF assms]] Cons.IH)
qed (simp add: yields_simps)

lemma flush_rings_faulted:
  assumes "\<And>h P. cursors_agree P \<Longrightarrow> cursors_agree (snd (h_rxsync H h P))"
  shows "cursors_agree P \<Longrightarrow> yields (flush_rings H ris P) (faulted_or cursors_agree)"
proof (induction ris arbitrary: P)
  case (Cons ri ris)
  let ?P = "put_rx_ring P ri ((port_rx_rings P ! ri)\<lparr>ring_cur := ring_num_slots (port_rx_rings P ! ri) - 1,
    ring_head := ring_num_slots (port_rx_rings P ! ri) - 1\<rparr>)"
  have "cursors_agree (snd (h_rxsync H h ?P))" for h
    by (intro assms put_rx_ring_agree Cons.prems) simp
  then show ?case
    by (auto simp: yields_simps Let_def split_beta intro!: yields_bind [of "ask _ _"] Cons.IH)
qed (simp add: yields_simps)

lemma recv_setup_good:
  assumes "recv_served H" and "good_port P"
  shows "yields (recv_setup H fd P) (\<lambda>x. \<exists>buf P'. x = Inr (buf, P') \<and> good_port P')"
proof -
  have typed: "typed_host H" and mmap: "h_mmap H h n fd \<noteq> - 1" for h n
    using assms(1) by (simp_all add: recv_served_def)
  obtain f where f: "page_map H f" using assms(1) by (auto simp: recv_served_def)
  have sync: "cursors_agree P \<Longrightarrow> cursors_agree (snd (h_rxsync H h P))" for h P
    using assms(1) by (simp add: recv_served_def)
  have init: "yields (init_nm_rx_ring_for_phy H buf P) (\<lambda>x. \<exists>P'. x = Inr P' \<and> port_typed P' \<and> cursors_agree P')" for buf
    using assms(2) unfolding init_nm_rx_ring_for_phy_def good_port_def
    by (intro yields_both init_rings_yields init_rings_faulted [OF f]) (auto simp: port_typed_def rx_typed_def)
  have flush: "yields (recv_flush H P) (\<lambda>x. \<exists>P'. x = Inr P' \<and> port_typed P' \<and> cursors_agree P')"
    if "port_typed P" "cursors_agree P" for P
    using that unfolding recv_flush_def
    by (intro yields_both flush_rings_yields [OF typed] flush_rings_faulted sync) (auto simp: port_typed_def rx_typed_def)
  show ?thesis
    using mmap unfolding recv_setup_def
    by (auto simp: yields_simps good_port_def intro!: yields_bind [of "ask _ _"] yields_bind [of "emit _"]
        yields_bindI [OF page_map_yields [OF f]] yields_bindI [OF init] yields_bindI [OF flush])
qed

lemma drain_rings_good:
  assumes "recv_served H" and "32768 \<le> fuel" and "good_port P"
  shows "yields (drain_rings H no_p2pmem buf fuel (rx_ring_indices P) P) (\<lambda>x. \<exists>P'. x = Inr P' \<and> good_port P')"
proof -
  have typed: "typed_host H" using assms(1) by (simp add: recv_served_def)
  obtain f where f: "no_p2pmem \<or> page_map H f" using assms(1) by (auto simp: recv_served_def)
  have P: "port_typed P" "cursors_agree P" using assms(3) by (simp_all add: good_port_def)
  have ris: "set (rx_ring_indices P) \<subseteq> {..< length (port_rx_rings P)}" by (rule rx_ring_indices_typed [OF P(1)])
  have heads: "\<forall>ri \<in> set (rx_ring_indices P). ring_head (port_rx_rings P ! ri) = ring_cur (port_rx_rings P ! ri)"
    using ris P(2) by (auto simp: cursors_agree_def subset_iff)
  have "distinct (rx_ring_indices P)" by (simp add: rx_ring_indices_def)
  note round = drain_rings_received [OF typed f assms(2) P(1) ris this heads]
  have "cursors_agree P'" if "length (port_rx_rings P') = length (port_rx_rings P)"
    "\<forall>ri < length (port_rx_rings P). port_rx_rings P' ! ri =
      (if ri \<in> set (rx_ring_indices P) then drained (port_rx_rings P ! ri) else port_rx_rings P ! ri)" for P'
    unfolding cursors_agree_def
  proof
    note len = that(1)
    fix r assume "r \<in> set (port_rx_rings P')"
    then obtain i where i: "i < length (port_rx_rings P)" "r = port_rx_rings P' ! i"
      using len by (auto simp: in_set_conv_nth)
    then have "ring_head (port_rx_rings P ! i) = ring_cur (port_rx_rings P ! i)"
      using P(2) by (simp add: cursors_agree_def)
    with i that(2) show "ring_head r = ring_cur r" by (simp add: drained_def)
  qed
  then show ?thesis
    by (intro yields_obeys [OF obeys_mono [OF round]]) (auto simp: good_port_def)
qed

lemma recv_loop_polls:
  assumes "recv_served H" and "32768 \<le> fuel"
  shows "good_port P \<Longrightarrow> obeys (collect poll_item) xs (recv_loop H no_p2pmem buf fuel k P)
    (\<lambda>x ys. x = Unfinished \<and> ys = xs @ replicate k ())"
proof (induction k arbitrary: P xs)
  case (Suc k)
  have good: "good_port P \<Longrightarrow> good_port (snd (h_rxsync H h P))" "good_port P \<Longrightarrow> good_port (snd (h_poll H h P))" for h P
    using assms(1) by (simp_all add: good_port_def recv_served_def typed_host_def)
  have ok: "\<not> sint (fst (h_rxsync H h P)) < 0" "\<not> sint (fst (h_poll H h P)) < - 1" for h P
    using assms(1) by (simp_all add: recv_served_def linorder_not_less)
  have round: "obeys (collect poll_item) ys (drain_rings H no_p2pmem buf fuel (rx_ring_indices P) P)
      (\<lambda>x zs. zs = ys \<and> (\<exists>P'. x = Inr P' \<and> good_port P'))" if "good_port P" for P ys
    by (rule obeys_silent [OF drain_rings_silent drain_rings_good [OF assms that]])
  have step: "collect poll_item xs (RxSync r) = Some xs" "collect poll_item xs (Poll r) = Some (xs @ [()])" for xs r
    by (simp_all add: collect_def)
  have rest: "obeys (collect poll_item) (xs @ [()]) (recv_loop H no_p2pmem buf fuel k P)
      (\<lambda>x ys. x = Unfinished \<and> ys = xs @ () # replicate k ())" if "good_port P" for P
    using Suc.IH [OF that, of "xs @ [()]"] by simp
  show ?case
    using Suc.prems
    by (auto simp: obeys_simps split_beta ok step good intro!: obeys_bind [of _ _ "ask _ _"] obeys_bindI [OF round] rest)
qed (simp add: obeys_simps)

lemma recv_main_polls:
  assumes "recv_served H" and "32768 \<le> fuel"
    and "recv_options (getopt_args recv_optstring argv) \<lparr>ro_nm_name = None, ro_no_p2pmem = False\<rparr> = Some o1"
  shows "obeys (collect poll_item) [] (recv_main H fuel k argv) (\<lambda>x ys. x = Unfinished \<and> ys = replicate k ())"
proof -
  have "\<exists>P. h_nm_open H h n = Some P \<and> cursors_agree P" "h_nm_open H h n = Some P \<Longrightarrow> port_typed P"
    "\<not> sint (h_open H h p) < 0" for h n p P
    using assms(1) by (simp_all add: recv_served_def typed_host_def linorder_not_less)
  then have opens: "\<exists>P. h_nm_open H h n = Some P \<and> good_port P" "\<not> sint (h_open H h p) < 0" for h n p
    unfolding good_port_def by blast+
  have prep: "obeys (collect poll_item) [] (recv_setup H fd P)
      (\<lambda>x ys. ys = [] \<and> (\<exists>buf P'. x = Inr (buf, P') \<and> good_port P'))" if "good_port P" for fd P
    by (rule obeys_silent [OF recv_setup_silent recv_setup_good [OF assms(1) that]])
  have loop: "obeys (collect poll_item) [] (recv_loop H no buf fuel k P) (\<lambda>x ys. x = Unfinished \<and> ys = replicate k ())"
    if "good_port P" for no buf P
    using recv_loop_polls [OF assms(1,2) that, of "[]"] by simp
  have step: "collect poll_item [] (NmOpen n b) = Some []" "collect poll_item [] (Open p r) = Some []" for n b p r
    by (simp_all add: collect_def)
  show ?thesis
    unfolding recv_main_def assms(3) option.case
  proof (rule obeys_bind, unfold obeys_ask, rule allI)
    fix h
    obtain P where P: "h_nm_open H h (ro_nm_name o1) = Some P" "good_port P" using opens(1) by blast
    show "\<exists>q. collect poll_item [] (NmOpen (ro_nm_name o1) (h_nm_open H h (ro_nm_name o1) \<noteq> None)) = Some q \<and>
        obeys (collect poll_item) q (case h_nm_open H h (ro_nm_name o1) of
            None \<Rightarrow> State_Monad.return (Returned (Some (- 1)))
          | Some nm_desc \<Rightarrow> do {
              fd \<leftarrow> ask (\<lambda>h. h_open H h ''/dev/p2pmmap'') (\<lambda>r. Open ''/dev/p2pmmap'' r);
              if sint fd < 0 then do {
                emit NmClose;
                State_Monad.return (Returned (Some fd))
              }
              else if ro_no_p2pmem o1 then recv_loop H True 0 fuel k nm_desc
              else do {
                s \<leftarrow> recv_setup H fd nm_desc;
                (case s of
                   Inl x \<Rightarrow> State_Monad.return x
                 | Inr (buf, P) \<Rightarrow> recv_loop H False buf fuel k P)
              }
            }) (\<lambda>x ys. x = Unfinished \<and> ys = replicate k ())"
      using P(2) by (auto simp: obeys_simps P(1) step opens(2) loop
          intro!: obeys_bind [of _ _ "ask _ _"] obeys_bindI [OF prep])
  qed
qed


lemma demo_recv_served: "recv_served demo_host"
proof -
  have "cursors_agree demo_port" by (simp add: cursors_agree_def demo_port_def demo_ring_def)
  with demo_typed_host demo_page_map show ?thesis
    unfolding recv_served_def by (auto simp: demo_host_def)
qed


end
