(* ===== verification/C_Double.thy ===== *)
theory C_Double
  imports Complex_Main C_Library
begin

section \<open>Doubles\<close>

text \<open>
  The arithmetic of C's \<open>double\<close> (IEEE 754 binary64, rounding to the nearest, ties to even) as far as the
  benchmark uses it: conversion of unsigned integers, division and multiplication of values that are not negative, and
  \<open>%.2lf\<close>. A finite double is its rational value. The values that occur are 0 or lie between
  2^-65 and 2^84, so neither the range of the exponent nor subnormal numbers matter, and rounding is rounding
  to 53 significant bits.
\<close>

subsection \<open>Rounding\<close>

definition round_even :: "rat \<Rightarrow> int" where
  "round_even x = (let f = \<lfloor>x\<rfloor>; d = x - of_int f in
     if d < 1 / 2 \<or> (d = 1 / 2 \<and> even f) then f else f + 1)"

text \<open>The binary logarithm of a positive integer, rounded down.\<close>

function ilog :: "int \<Rightarrow> int" where
  "ilog a = (if a \<le> 1 then 0 else ilog (a div 2) + 1)"
  by pat_completeness auto
termination by (relation "measure nat") auto

declare ilog.simps [simp del]

text \<open>The exponent \<open>e\<close> with \<open>2 ^ e \<le> x < 2 ^ (e + 1)\<close>, for a positive \<open>x\<close>.\<close>

definition exponent :: "rat \<Rightarrow> int" where
  "exponent x = (case quotient_of x of (a, b) \<Rightarrow>
     let l = ilog a - ilog b in
     if 2 powi l \<le> x then l else l - 1)"

definition unit_last_place :: "rat \<Rightarrow> rat" where
  "unit_last_place x = 2 powi (exponent x - 52)"

definition round_double :: "rat \<Rightarrow> rat" where
  "round_double x = (if x = 0 then 0 else of_int (round_even (x / unit_last_place x)) * unit_last_place x)"

datatype double = Fin rat | Inf | Nan

definition double_of_u64 :: "u64 \<Rightarrow> double" where
  "double_of_u64 w = Fin (round_double (of_nat (unat w)))"

fun double_div :: "double \<Rightarrow> double \<Rightarrow> double" where
  "double_div Nan y = Nan"
| "double_div x Nan = Nan"
| "double_div Inf Inf = Nan"
| "double_div Inf (Fin b) = Inf"
| "double_div (Fin a) Inf = Fin 0"
| "double_div (Fin a) (Fin b) =
     (if b = 0 then (if a = 0 then Nan else Inf) else Fin (round_double (a / b)))"

fun double_mul :: "double \<Rightarrow> double \<Rightarrow> double" where
  "double_mul Nan y = Nan"
| "double_mul x Nan = Nan"
| "double_mul Inf Inf = Inf"
| "double_mul Inf (Fin b) = (if b = 0 then Nan else Inf)"
| "double_mul (Fin a) Inf = (if a = 0 then Nan else Inf)"
| "double_mul (Fin a) (Fin b) = Fin (round_double (a * b))"

text \<open>
  \<open>%.2lf\<close>: the exact value rounded to hundredths. The NaN of an invalid operation has its sign bit set on
  x86, so the C library prints it with a minus sign.
\<close>

definition show_hundredths :: "nat \<Rightarrow> string" where
  "show_hundredths c = show_nat (c div 100) @ ''.'' @ [digit_char (c div 10 mod 10), digit_char (c mod 10)]"

fun show_2lf :: "double \<Rightarrow> string" where
  "show_2lf (Fin x) = show_hundredths (nat (round_even (100 * x)))"
| "show_2lf Inf = ''inf''"
| "show_2lf Nan = ''-nan''"

subsection \<open>The error of rounding\<close>

lemma round_even_error: "\<bar>of_int (round_even x) - x\<bar> \<le> 1 / 2"
proof -
  have "of_int \<lfloor>x\<rfloor> \<le> x" "x < of_int \<lfloor>x\<rfloor> + 1" by linarith+
  then show ?thesis unfolding round_even_def Let_def by (auto simp: abs_le_iff)
qed

lemma round_even_of_int [simp]: "round_even (of_int i) = i"
  by (simp add: round_even_def)

lemma round_even_nonneg: "0 \<le> x \<Longrightarrow> 0 \<le> round_even x"
  by (simp add: round_even_def Let_def)

lemma powi_mult: "(2 :: rat) powi i * 2 powi j = 2 powi (i + j)"
  by (simp add: power_int_add)

lemma ilog_bounds:
  assumes "0 < a"
  shows "(2 :: rat) powi ilog a \<le> of_int a" and "of_int a < (2 :: rat) powi (ilog a + 1)"
proof -
  have "\<exists>n. ilog a = int n \<and> 2 ^ n \<le> a \<and> a < 2 ^ (n + 1)"
    using assms
  proof (induction a rule: ilog.induct)
    case (1 a)
    show ?case
    proof (cases "a \<le> 1")
      case True
      with 1 have "a = 1" by simp
      then show ?thesis by (simp add: ilog.simps)
    next
      case False
      then have "0 < a div 2" by linarith
      with 1 False obtain n where n: "ilog (a div 2) = int n" "2 ^ n \<le> a div 2" "a div 2 < 2 ^ (n + 1)" by auto
      have "2 ^ Suc n \<le> a" "a < 2 ^ (Suc n + 1)" using n(2,3) by simp_all
      then show ?thesis using n(1) False by (intro exI [of _ "Suc n"]) (simp add: ilog.simps [of a])
    qed
  qed
  then obtain n where n: "ilog a = int n" "2 ^ n \<le> a" "a < 2 ^ (n + 1)" by blast
  from n(2,3) have "of_int (2 ^ n) \<le> (of_int a :: rat)" "(of_int a :: rat) < of_int (2 ^ (n + 1))"
    by (simp_all only: of_int_le_iff of_int_less_iff)
  moreover have "ilog a + 1 = int (n + 1)" using n(1) by simp
  ultimately show "(2 :: rat) powi ilog a \<le> of_int a" "of_int a < (2 :: rat) powi (ilog a + 1)"
    by (simp_all only: n(1) power_int_of_nat of_int_power of_int_numeral)
qed

lemma exponent_bounds:
  assumes "0 < x"
  shows "2 powi exponent x \<le> x" and "x < 2 powi (exponent x + 1)"
proof -
  obtain a b where q: "quotient_of x = (a, b)" by (rule prod.exhaust)
  have x: "x = of_int a / of_int b" and b: "0 < b"
    using quotient_of_div [OF q] quotient_of_denom_pos [OF q] by simp_all
  with assms have a: "0 < a" by (simp add: zero_less_divide_iff)
  let ?m = "ilog a" and ?n = "ilog b"
  note fa = ilog_bounds [OF a] and fb = ilog_bounds [OF b]
  have b': "0 < (of_int b :: rat)" using b by simp
  have p: "0 < (2 :: rat) powi i" for i by simp
  have "2 powi (?m - ?n - 1) * of_int b \<le> 2 powi (?m - ?n - 1) * (2 :: rat) powi (?n + 1)"
    using fb(2) by (intro mult_left_mono) simp_all
  also have "\<dots> = 2 powi ?m" by (simp only: powi_mult) simp
  finally have lo: "2 powi (?m - ?n - 1) \<le> x"
    using fa(1) b' by (simp add: x pos_le_divide_eq)
  have "(of_int a :: rat) < 2 powi (?m + 1)" by (rule fa(2))
  also have "\<dots> = 2 powi (?m - ?n + 1) * 2 powi ?n" by (simp only: powi_mult) simp
  also have "\<dots> \<le> 2 powi (?m - ?n + 1) * of_int b"
    using fb(1) by (intro mult_left_mono) simp_all
  finally have hi: "x < 2 powi (?m - ?n + 1)"
    using b' by (simp add: x pos_divide_less_eq)
  show "2 powi exponent x \<le> x" "x < 2 powi (exponent x + 1)"
    using lo hi by (auto simp: exponent_def q Let_def)
qed

text \<open>The value 2^-53: half a unit in the last place of 1.\<close>

definition half_ulp :: rat where
  "half_ulp = 1 / 2 ^ 53"

lemma round_double_error:
  assumes "0 \<le> x"
  shows "\<bar>round_double x - x\<bar> \<le> x * half_ulp"
proof (cases "x = 0")
  case False
  let ?u = "unit_last_place x"
  have u: "0 < ?u" by (simp add: unit_last_place_def)
  have "of_int (round_even (x / ?u)) * ?u - x = (of_int (round_even (x / ?u)) - x / ?u) * ?u"
    using u by (simp add: field_simps)
  then have "\<bar>of_int (round_even (x / ?u)) * ?u - x\<bar> = \<bar>of_int (round_even (x / ?u)) - x / ?u\<bar> * ?u"
    using u by (simp only: abs_mult abs_of_pos)
  also have "\<dots> \<le> 1 / 2 * ?u"
    using u by (intro mult_right_mono round_even_error) simp
  also have "\<dots> = 2 powi exponent x * half_ulp"
    by (simp add: unit_last_place_def half_ulp_def power_int_diff)
  also have "\<dots> \<le> x * half_ulp"
    using exponent_bounds(1) [of x] assms False by (intro mult_right_mono) (simp_all add: half_ulp_def)
  finally show ?thesis using False by (simp add: round_double_def)
qed (simp add: round_double_def)

lemma round_double_nonneg: "0 \<le> x \<Longrightarrow> 0 \<le> round_double x"
  by (simp add: round_double_def unit_last_place_def round_even_nonneg)

text \<open>Integers below 2^53 are doubles.\<close>

lemma round_double_exact:
  assumes "n < 2 ^ 53"
  shows "round_double (of_nat n) = of_nat n"
proof (cases "n = 0")
  case False
  let ?x = "of_nat n :: rat"
  have x: "0 < ?x" using False by simp
  have "?x < 2 ^ 53" using assms by (metis of_nat_less_iff of_nat_numeral of_nat_power)
  then have small: "2 powi exponent ?x < (2 :: rat) powi 53"
    using exponent_bounds(1) [OF x] by simp
  have "exponent ?x \<le> 52"
  proof (rule ccontr)
    assume "\<not> exponent ?x \<le> 52"
    then have "(2 :: rat) powi 53 \<le> 2 powi exponent ?x" by (intro power_int_increasing) simp_all
    with small show False by simp
  qed
  then obtain k where k: "exponent ?x - 52 = - int k"
    by (metis diff_ge_0_iff_ge minus_diff_eq zero_le_imp_eq_int)
  have "unit_last_place ?x = 1 / 2 ^ k" by (simp add: unit_last_place_def k power_int_minus inverse_eq_divide)
  moreover have "?x * 2 ^ k = of_int (int n * 2 ^ k)" by simp
  ultimately have "round_double ?x = of_int (int n * 2 ^ k) * (1 / 2 ^ k)"
    using False by (simp add: round_double_def del: of_int_mult)
  then show ?thesis by simp
qed (simp add: round_double_def)

subsection \<open>The error of a computation\<close>

text \<open>\<open>x\<close> is \<open>y\<close> up to \<open>k\<close> roundings.\<close>

definition rounded :: "nat \<Rightarrow> rat \<Rightarrow> rat \<Rightarrow> bool" where
  "rounded k y x \<longleftrightarrow> 0 \<le> y \<and> y * (1 - half_ulp) ^ k \<le> x \<and> x \<le> y * (1 + half_ulp) ^ k"

lemma half_ulp_range: "0 < half_ulp" "half_ulp < 1"
  by (simp_all add: half_ulp_def)

lemma rounded_refl: "0 \<le> y \<Longrightarrow> rounded 0 y y"
  by (simp add: rounded_def)

lemma rounded_nonneg: "rounded k y x \<Longrightarrow> 0 \<le> x"
  using half_ulp_range by (auto simp: rounded_def intro: order_trans [rotated])

lemma rounded_round:
  assumes "rounded k y x"
  shows "rounded (Suc k) y (round_double x)"
proof -
  have e: "\<bar>round_double x - x\<bar> \<le> x * half_ulp"
    using rounded_nonneg [OF assms] by (rule round_double_error)
  have "y * (1 - half_ulp) ^ k * (1 - half_ulp) \<le> x * (1 - half_ulp)"
    using assms half_ulp_range by (intro mult_right_mono) (simp_all add: rounded_def)
  also have "\<dots> \<le> round_double x" using e by (simp add: algebra_simps abs_le_iff)
  finally have lo: "y * (1 - half_ulp) ^ Suc k \<le> round_double x" by (simp add: mult_ac)
  have "round_double x \<le> x * (1 + half_ulp)" using e by (simp add: algebra_simps abs_le_iff)
  also have "\<dots> \<le> y * (1 + half_ulp) ^ k * (1 + half_ulp)"
    using assms half_ulp_range by (intro mult_right_mono) (simp_all add: rounded_def)
  finally have hi: "round_double x \<le> y * (1 + half_ulp) ^ Suc k" by (simp add: mult_ac)
  show ?thesis using assms lo hi by (simp add: rounded_def)
qed

lemma rounded_mult: "rounded k y x \<Longrightarrow> 0 \<le> c \<Longrightarrow> rounded k (y * c) (x * c)"
  unfolding rounded_def by (metis mult.assoc mult.commute mult_nonneg_nonneg mult_right_mono)

lemma rounded_div: "rounded k y x \<Longrightarrow> 0 < c \<Longrightarrow> rounded k (y / c) (x / c)"
  using rounded_mult [of k y x "1 / c"] by simp

lemma rounded_Suc: "rounded k y x \<Longrightarrow> rounded (Suc k) y x"
proof -
  assume r: "rounded k y x"
  have "(1 - half_ulp) ^ Suc k \<le> (1 - half_ulp) ^ k" "(1 + half_ulp) ^ k \<le> (1 + half_ulp) ^ Suc k"
    using half_ulp_range by (simp_all add: mult_left_le_one_le)
  note scaled = this [THEN mult_left_mono]
  show "rounded (Suc k) y x"
    using r scaled [of y] unfolding rounded_def by (meson order_trans)
qed

text \<open>Four roundings lose less than a part in 2^50.\<close>

lemma rounded_4:
  assumes "rounded 4 y x"
  shows "\<bar>x - y\<bar> \<le> y / 2 ^ 50"
proof -
  have y: "0 \<le> y" using assms by (simp add: rounded_def)
  have "1 - 1 / 2 ^ 50 \<le> (1 - half_ulp) ^ 4" "(1 + half_ulp) ^ 4 \<le> 1 + 1 / 2 ^ 50" by code_simp+
  note scaled = this [THEN mult_left_mono, OF y]
  have "y * (1 - 1 / 2 ^ 50) \<le> x" "x \<le> y * (1 + 1 / 2 ^ 50)"
    using assms scaled unfolding rounded_def by (meson order_trans)+
  then have "y - y / 2 ^ 50 \<le> x" "x \<le> y + y / 2 ^ 50" by (simp_all only: right_diff_distrib distrib_left) simp_all
  then show ?thesis by (simp only: abs_le_iff) linarith
qed

end
