(* ===== verification/Bench_Config.thy ===== *)
theory Bench_Config
  imports C_Library "HOL-Library.Signed_Division"
begin

section \<open>bench-nvme: configuration, block addresses and times\<close>

text \<open>
  The sequential parts of userland-driver/tools/bench-nvme.c: the parameters and the options, the
  choice of the next block address, and the arithmetic on times. The set of CPUs the process may run
  on, which \<open>sched_getaffinity\<close> returns, and the values of \<open>rand\<close> are arguments.
\<close>

subsection \<open>Parameters\<close>

datatype walk = WALK_RANDOM | WALK_SEQ | WALK_SAME

datatype bench_mode = NVME_CMD_READ | NVME_CMD_WRITE

definition MAX_BATCH_SIZE :: nat where
  "MAX_BATCH_SIZE = 258"

definition MAX_CPU_NUM :: nat where
  "MAX_CPU_NUM = 32"

record bench_param =
  bp_mode :: bench_mode
  bp_walk :: walk
  bp_size :: s32
  bp_batch :: s32
  bp_ncpus :: s32
  bp_time :: s32
  bp_pci :: "string option"

definition bench_param_init :: bench_param where
  "bench_param_init = \<lparr>bp_mode = NVME_CMD_READ, bp_walk = WALK_RANDOM, bp_size = 64, bp_batch = 1,
     bp_ncpus = 1, bp_time = 1, bp_pci = None\<rparr>"

definition count_online_cpus :: "nat list option \<Rightarrow> s32" where
  "count_online_cpus affinity = (case affinity of
     Some cpu_set \<Rightarrow> of_nat (length (remdups cpu_set))
   | None \<Rightarrow> - 1)"

definition bench_optstring :: string where
  "bench_optstring = ''m:w:s:b:p:n:t:v''"

text \<open>The verbosity is the second component of the state; None where the program returns -1.\<close>

definition bench_option ::
  "nat list option \<Rightarrow> char \<times> string \<Rightarrow> bench_param \<times> nat \<Rightarrow> (bench_param \<times> nat) option" where
  "bench_option affinity oa pv = (case oa of (ch, optarg) \<Rightarrow> case pv of (p, v) \<Rightarrow>
     if ch = CHR ''m'' then
       (if strncmp_eq optarg ''read'' 4 then Some (p\<lparr>bp_mode := NVME_CMD_READ\<rparr>, v)
        else if strncmp_eq optarg ''write'' 5 then Some (p\<lparr>bp_mode := NVME_CMD_WRITE\<rparr>, v)
        else None)
     else if ch = CHR ''w'' then
       (if strncmp_eq optarg ''random'' 6 then Some (p\<lparr>bp_walk := WALK_RANDOM\<rparr>, v)
        else if strncmp_eq optarg ''seq'' 3 then Some (p\<lparr>bp_walk := WALK_SEQ\<rparr>, v)
        else if strncmp_eq optarg ''same'' 4 then Some (p\<lparr>bp_walk := WALK_SAME\<rparr>, v)
        else None)
     else if ch = CHR ''s'' then
       (if sint (atoi optarg) < 0 then None else Some (p\<lparr>bp_size := atoi optarg\<rparr>, v))
     else if ch = CHR ''b'' then
       (if sint (atoi optarg) < 0 \<or> sint (atoi optarg) > int MAX_BATCH_SIZE then None
        else Some (p\<lparr>bp_batch := atoi optarg\<rparr>, v))
     else if ch = CHR ''n'' then
       (if sint (atoi optarg) < 1 \<or> sint (atoi optarg) > sint (count_online_cpus affinity) then None
        else Some (p\<lparr>bp_ncpus := atoi optarg\<rparr>, v))
     else if ch = CHR ''t'' then Some (p\<lparr>bp_time := atoi optarg\<rparr>, v)
     else if ch = CHR ''p'' then Some (p\<lparr>bp_pci := Some optarg\<rparr>, v)
     else if ch = CHR ''v'' then Some (p, v + 1)
     else None)"

fun bench_options ::
  "nat list option \<Rightarrow> (char \<times> string) list \<Rightarrow> bench_param \<times> nat \<Rightarrow> (bench_param \<times> nat) option" where
  "bench_options affinity [] pv = Some pv"
| "bench_options affinity (oa # oas) pv =
     (case bench_option affinity oa pv of None \<Rightarrow> None | Some pv' \<Rightarrow> bench_options affinity oas pv')"

text \<open>What the options guarantee.\<close>

definition param_ok :: "nat list option \<Rightarrow> bench_param \<Rightarrow> bool" where
  "param_ok affinity p \<longleftrightarrow> 0 \<le> sint (bp_size p) \<and> 0 \<le> sint (bp_batch p) \<and>
     sint (bp_batch p) \<le> int MAX_BATCH_SIZE \<and> 1 \<le> sint (bp_ncpus p) \<and>
     (bp_ncpus p = 1 \<or> sint (bp_ncpus p) \<le> sint (count_online_cpus affinity))"

lemma bench_option_ok:
  assumes "bench_option affinity oa (p, v) = Some (p', v')" and "param_ok affinity p"
  shows "param_ok affinity p'"
  using assms unfolding bench_option_def param_ok_def by (auto split: prod.splits if_splits)

text \<open>
  Every command line bench-nvme accepts gives parameters within their ranges: a size that
  is not negative, at most as many requests in a batch as the arrays of a thread have room for, and
  between one and the number of CPUs the process may use; but nothing compares the number of CPUs with
  the 32 entries the array of threads has.
\<close>

theorem bench_options_ok:
  assumes "bench_options affinity oas (p, v) = Some (p', v')" and "param_ok affinity p"
  shows "param_ok affinity p'"
  using assms
proof (induction affinity oas "(p, v)" arbitrary: p v rule: bench_options.induct)
  case (2 affinity oa oas p v)
  from 2(2) obtain p1 v1 where "bench_option affinity oa (p, v) = Some (p1, v1)"
    "bench_options affinity oas (p1, v1) = Some (p', v')"
    by (auto split: option.splits)
  then show ?case using 2(1,3) bench_option_ok by blast
qed simp

lemma bench_param_init_ok: "param_ok affinity bench_param_init"
  by (simp add: param_ok_def bench_param_init_def MAX_BATCH_SIZE_def)

text \<open>33 CPUs are accepted on a machine that has them.\<close>

theorem bench_options_ok_witness:
  "\<exists>p v. bench_options (Some [0 ..< 40]) [(CHR ''n'', ''33'')] (bench_param_init, 0) = Some (p, v) \<and>
     sint (bp_ncpus p) = 33 \<and> param_ok (Some [0 ..< 40]) p"
proof -
  have atoi: "atoi ''33'' = 33"
    by (simp add: atoi_def strtol_def strtol_base_def is_space_def digit_val_def clamp_long_def)
  have cpus: "sint (count_online_cpus (Some [0 ..< 40])) = 40"
    by (simp add: count_online_cpus_def)
  have run: "bench_options (Some [0 ..< 40]) [(CHR ''n'', ''33'')] (bench_param_init, 0) =
      Some (bench_param_init\<lparr>bp_ncpus := 33\<rparr>, 0)"
    by (simp add: bench_option_def atoi cpus)
  from bench_options_ok [OF run bench_param_init_ok] run show ?thesis by simp
qed

subsection \<open>Block addresses\<close>

definition BLOCK_END :: u64 where
  "BLOCK_END = 0xe8e088b0"

text \<open>\<open>p.size % 512 ? p.size / 512 + 1 : p.size / 512\<close>\<close>

definition bench_nblocks :: "s32 \<Rightarrow> u64" where
  "bench_nblocks sz = (let s = sint sz in
     word_of_int (if s smod 512 \<noteq> 0 then s sdiv 512 + 1 else s sdiv 512))"

text \<open>\<open>rnd\<close> is what \<open>rand\<close> returns; a remainder by 0 is undefined.\<close>

definition next_lba :: "walk \<Rightarrow> s32 \<Rightarrow> u64 \<Rightarrow> u64 \<Rightarrow> u64 \<Rightarrow> u64 option" where
  "next_lba w rnd lba block_end nblocks = (case w of
     WALK_RANDOM \<Rightarrow>
       if block_end - nblocks = 0 then None else Some (scast rnd mod (block_end - nblocks))
   | WALK_SAME \<Rightarrow> Some lba
   | WALK_SEQ \<Rightarrow>
       if lba + push_bit 1 nblocks < block_end then Some (lba + nblocks) else Some 0)"

text \<open>\<open>th[n].slba = 0xe8e088b0 / p.ncpus * n\<close>, computed in 32 bits.\<close>

definition start_lba :: "s32 \<Rightarrow> nat \<Rightarrow> u64" where
  "start_lba ncpus n = ucast ((0xe8e088b0 :: u32) div ncpus * of_nat n)"

definition in_device :: "u64 \<Rightarrow> u64 \<Rightarrow> bool" where
  "in_device nblocks lba \<longleftrightarrow> unat lba + unat nblocks \<le> unat BLOCK_END"

lemma BLOCK_END_unat: "unat BLOCK_END = 3907029168"
  by (simp add: BLOCK_END_def)

lemma sdiv_nonneg:
  assumes "0 \<le> (s :: int)"
  shows "s sdiv 512 = s div 512" "s smod 512 = s mod 512"
proof -
  show d: "s sdiv 512 = s div 512"
    using assms by (cases "s = 0") (simp_all add: signed_divide_int_def sgn_if)
  show "s smod 512 = s mod 512"
    using assms by (cases "s = 0") (simp_all add: signed_modulo_int_def sgn_if)
qed

lemma round_up_512: "(if s mod 512 \<noteq> 0 then s div 512 + 1 else s div 512) = (s + 511) div (512 :: int)"
proof -
  let ?q = "s div 512" and ?r = "s mod 512"
  have "s + 511 = (?r + 511) + 512 * ?q" by simp
  then have e: "(s + 511) div 512 = (?r + 511) div 512 + ?q" by (metis add.commute div_mult_self2 zero_neq_numeral)
  have "0 \<le> ?r" "?r < 512" by simp_all
  then have "?r \<noteq> 0 \<Longrightarrow> (?r + 511) div 512 = 1" "?r = 0 \<Longrightarrow> (?r + 511) div 512 = 0" by linarith+
  with e show ?thesis by auto
qed

lemma bench_nblocks_bounds:
  assumes "0 \<le> sint sz"
  shows "int (unat (bench_nblocks sz)) = (sint sz + 511) div 512" "unat (bench_nblocks sz) \<le> 2 ^ 22"
proof -
  let ?s = "sint sz" and ?n = "(sint sz + 511) div 512"
  have up: "?s < 2147483648" using sint_s32_range(2) [of sz] by simp
  have "bench_nblocks sz = word_of_int ?n"
  proof -
    have "(if ?s smod 512 \<noteq> 0 then ?s sdiv 512 + 1 else ?s sdiv 512) =
        (if ?s mod 512 \<noteq> 0 then ?s div 512 + 1 else ?s div 512)"
      using assms by (simp only: sdiv_nonneg)
    also have "\<dots> = ?n" by (rule round_up_512)
    finally show ?thesis by (simp only: bench_nblocks_def Let_def)
  qed
  note word = this
  have n: "0 \<le> ?n" "?n \<le> 4194304" using assms up by linarith+
  have "uint (word_of_int k :: u64) = k" if "0 \<le> k" "k \<le> 4194304" for k
    using that by (simp add: unsigned_of_int take_bit_int_eq_self)
  then have "uint (bench_nblocks sz) = ?n" unfolding word using n by blast
  then show eq: "int (unat (bench_nblocks sz)) = ?n" by (simp only: uint_nat)
  have "int (unat (bench_nblocks sz)) \<le> 4194304" using eq n(2) by (simp only:)
  moreover have "x \<le> 2 ^ 22" if "int x \<le> 4194304" for x
    using that by simp
  ultimately show "unat (bench_nblocks sz) \<le> 2 ^ 22" by blast
qed

lemma next_lba_in_device:
  assumes "unat nb \<le> 2 ^ 22" and "in_device nb lba"
  shows "\<exists>l. next_lba w rnd lba BLOCK_END nb = Some l \<and> in_device nb l"
proof (cases w)
  case WALK_RANDOM
  have le: "nb \<le> BLOCK_END" using assms(1) by (simp add: word_le_nat_alt BLOCK_END_unat)
  then have d: "unat (BLOCK_END - nb) = unat BLOCK_END - unat nb" by (rule unat_sub)
  then have pos: "0 < unat (BLOCK_END - nb)" using assms(1) by (simp add: BLOCK_END_unat)
  then have "unat (scast rnd mod (BLOCK_END - nb)) < unat BLOCK_END - unat nb"
    unfolding d [symmetric] by (simp add: unat_mod_distrib)
  then have "in_device nb (scast rnd mod (BLOCK_END - nb))" by (simp add: in_device_def)
  moreover have "BLOCK_END - nb \<noteq> 0" using pos by (metis less_irrefl unat_0)
  ultimately show ?thesis using WALK_RANDOM by (simp add: next_lba_def)
next
  case WALK_SEQ
  have "unat (push_bit 1 nb) = 2 * unat nb"
    using assms(1) by (simp add: unat_word_ariths)
  moreover have "unat lba \<le> 3907029168" using assms(2) by (simp add: in_device_def BLOCK_END_unat)
  ultimately have s: "unat (lba + push_bit 1 nb) = unat lba + 2 * unat nb" "unat (lba + nb) = unat lba + unat nb"
    using assms(1) by (simp_all add: unat_small_add)
  have "in_device nb (lba + nb)" if "lba + push_bit 1 nb < BLOCK_END"
    using that unfolding word_less_nat_alt s in_device_def by simp
  moreover have "in_device nb 0" using assms(1) by (simp add: in_device_def BLOCK_END_unat)
  ultimately show ?thesis using WALK_SEQ by (simp add: next_lba_def)
next
  case WALK_SAME
  with assms(2) show ?thesis by (simp add: next_lba_def)
qed

text \<open>The random walk never goes beyond what \<open>rand\<close> can return, about 55 per cent of the device.\<close>

lemma random_walk_reach:
  assumes "0 \<le> sint rnd" and "next_lba WALK_RANDOM rnd lba BLOCK_END nb = Some l" 
  shows "unat l < 2 ^ 31"
proof -
  have "int (unat (scast rnd :: u64)) = sint rnd"
    using s32_nonneg(2) [OF assms(1)] by (simp only: uint_nat)
  then have "int (unat (scast rnd :: u64)) < int (2 ^ 31)"
    using sint_s32_range(2) [of rnd] by (simp only: of_nat_power of_nat_numeral)
  then have r: "unat (scast rnd :: u64) < 2 ^ 31" by (simp only: of_nat_less_iff)
  have "unat l \<le> unat (scast rnd :: u64)"
    using assms(2) by (auto simp: next_lba_def unat_mod_distrib split: if_splits)
  with r show ?thesis by linarith
qed

lemma start_lba_in_device:
  assumes "1 \<le> sint ncpus" and "sint ncpus \<le> int MAX_CPU_NUM" and "int n < sint ncpus"
    and "unat nb \<le> 2 ^ 22"
  shows "in_device nb (start_lba ncpus n)"
proof -
  let ?c = "unat ncpus" and ?e = "3907029168 :: nat"
  have e: "sint ncpus = int ?c"
    using assms(1) by (intro s32_nonneg(1) [symmetric]) simp
  have c: "1 \<le> ?c" "?c \<le> 32" "n < ?c" using assms(1-3) unfolding e MAX_CPU_NUM_def by linarith+
  let ?q = "?e div ?c"
  have fit: "?q * n + ?q \<le> ?e"
  proof -
    have "?q * Suc n \<le> ?q * ?c" using c(3) by (intro mult_left_mono) simp_all
    also have "\<dots> \<le> ?e" by simp
    finally show ?thesis by simp
  qed
  have "?e div 32 \<le> ?q" using c by (intro div_le_mono2) simp_all
  with assms(4) have "?q * n + unat nb \<le> ?e" using fit by simp
  moreover have "unat (start_lba ncpus n) = ?q * n"
  proof -
    have "unat ((0xe8e088b0 :: u32) div ncpus * of_nat n) = ?q * n"
      using c fit by (simp add: unat_word_ariths unat_div_distrib unsigned_of_nat take_bit_nat_eq_self)
    then show ?thesis by (simp only: start_lba_def unat_ucast_32_64)
  qed
  ultimately show ?thesis by (simp add: in_device_def BLOCK_END_unat)
qed

subsection \<open>Times\<close>

text \<open>\<open>struct timeval\<close>, ordered by seconds and then microseconds.\<close>

datatype timeval = Timeval (tv_sec: s64) (tv_usec: s64)

instantiation timeval :: linorder
begin

definition less_eq_timeval :: "timeval \<Rightarrow> timeval \<Rightarrow> bool" where
  "less_eq_timeval s t \<longleftrightarrow> sint (tv_sec s) < sint (tv_sec t) \<or>
     (sint (tv_sec s) = sint (tv_sec t) \<and> sint (tv_usec s) \<le> sint (tv_usec t))"

definition less_timeval :: "timeval \<Rightarrow> timeval \<Rightarrow> bool" where
  "less_timeval s t \<longleftrightarrow> s \<le> t \<and> \<not> t \<le> s"

instance
proof
  fix x y :: timeval
  show "x \<le> y \<Longrightarrow> y \<le> x \<Longrightarrow> x = y"
    by (cases x; cases y) (auto simp: less_eq_timeval_def intro: signed_word_eqI)
qed (auto simp: less_eq_timeval_def less_timeval_def)

end

definition in_long :: "int \<Rightarrow> bool" where
  "in_long v \<longleftrightarrow> - (2 ^ 63) \<le> v \<and> v < 2 ^ 63"

text \<open>The signed arithmetic overflows where an intermediate result is no \<open>long\<close>: then None.\<close>

definition get_usec_elapsed :: "timeval \<Rightarrow> timeval \<Rightarrow> u64 option" where
  "get_usec_elapsed start fin =
     (let borrow = sint (tv_usec fin) < sint (tv_usec start);
          usec = (if borrow then sint (tv_usec fin) + 1000000 else sint (tv_usec fin));
          sec = (if borrow then sint (tv_sec fin) - 1 else sint (tv_sec fin));
          d = sec - sint (tv_sec start);
          m = d * 1000000
      in if in_long usec \<and> in_long sec \<and> in_long d \<and> in_long m \<and> in_long (m + usec) \<and>
            in_long (m + usec - sint (tv_usec start))
         then Some (word_of_int (m + usec - sint (tv_usec start))) else None)"

text \<open>A time as \<open>gettimeofday\<close> gives it, and the microseconds since the epoch.\<close>

definition timeval_ok :: "timeval \<Rightarrow> bool" where
  "timeval_ok t \<longleftrightarrow> 0 \<le> sint (tv_sec t) \<and> sint (tv_sec t) < 2 ^ 40 \<and>
     0 \<le> sint (tv_usec t) \<and> sint (tv_usec t) < 1000000"

definition usec_of :: "timeval \<Rightarrow> int" where
  "usec_of t = sint (tv_sec t) * 1000000 + sint (tv_usec t)"

lemma usec_of_mono:
  assumes "timeval_ok s" and "timeval_ok t"
  shows "s \<le> t \<longleftrightarrow> usec_of s \<le> usec_of t"
  using assms unfolding less_eq_timeval_def timeval_ok_def usec_of_def by linarith

lemma elapsed_value:
  assumes "timeval_ok s" and "timeval_ok t"
  shows "get_usec_elapsed s t = Some (word_of_int (usec_of t - usec_of s))"
proof -
  let ?a = "sint (tv_sec s)" and ?b = "sint (tv_usec s)" and ?c = "sint (tv_sec t)" and ?d = "sint (tv_usec t)"
  have r: "0 \<le> ?a" "?a < 1099511627776" "0 \<le> ?b" "?b < 1000000" "0 \<le> ?c" "?c < 1099511627776"
    "0 \<le> ?d" "?d < 1000000"
    using assms by (simp_all add: timeval_ok_def)
  have long: "in_long v" if "- 2000000000000000000 \<le> v" "v \<le> 2000000000000000000" for v
    using that by (simp add: in_long_def)
  show ?thesis
  proof (cases "?d < ?b")
    case True
    have "in_long (?d + 1000000)" "in_long (?c - 1)" "in_long (?c - 1 - ?a)"
      "in_long ((?c - 1 - ?a) * 1000000)" "in_long ((?c - 1 - ?a) * 1000000 + (?d + 1000000))"
      "in_long ((?c - 1 - ?a) * 1000000 + (?d + 1000000) - ?b)"
      using r unfolding left_diff_distrib by (intro long; linarith)+
    moreover have "(?c - 1 - ?a) * 1000000 + (?d + 1000000) - ?b = usec_of t - usec_of s"
      by (simp add: usec_of_def algebra_simps)
    ultimately show ?thesis
      using True unfolding get_usec_elapsed_def Let_def by (simp only: if_True simp_thms)
  next
    case False
    have "in_long ?d" "in_long ?c" "in_long (?c - ?a)" "in_long ((?c - ?a) * 1000000)"
      "in_long ((?c - ?a) * 1000000 + ?d)" "in_long ((?c - ?a) * 1000000 + ?d - ?b)"
      using r unfolding left_diff_distrib by (intro long; linarith)+
    moreover have "(?c - ?a) * 1000000 + ?d - ?b = usec_of t - usec_of s"
      by (simp add: usec_of_def algebra_simps)
    ultimately show ?thesis
      using False unfolding get_usec_elapsed_def Let_def by (simp only: if_False if_True simp_thms)
  qed
qed

text \<open>
  C36. For times as \<open>gettimeofday\<close> gives them, \<open>get_usec_elapsed\<close> does not overflow and is
  the exact number of microseconds from the first to the second when they are in order, with or
  without a borrow from the seconds; when the clock went backwards, the unsigned result wraps to a
  number above 2 to the 63.
\<close>

theorem usec_elapsed_exact:
  assumes "timeval_ok s" and "timeval_ok t"
  shows "\<exists>r. get_usec_elapsed s t = Some r \<and>
    (s \<le> t \<longrightarrow> int (unat r) = usec_of t - usec_of s) \<and> (t < s \<longrightarrow> 2 ^ 63 < unat r)"
proof -
  have "timeval_ok x \<Longrightarrow> 0 \<le> usec_of x \<and> usec_of x < 2000000000000000000" for x
    unfolding timeval_ok_def usec_of_def by auto
  note bound = this [OF assms(1)] this [OF assms(2)]
  have pos: "int (unat (word_of_int x :: u64)) = x" if "0 \<le> x" "x < 2000000000000000000" for x
    using that by (simp add: unsigned_of_int take_bit_int_eq_self flip: uint_nat)
  have neg: "2 ^ 63 < unat (word_of_int x :: u64)" if "x < 0" "- 2000000000000000000 < x" for x
  proof -
    have "uint (word_of_int x :: u64) = x mod 18446744073709551616"
      by (simp add: uint_word_of_int)
    also have "\<dots> = (x + 18446744073709551616) mod 18446744073709551616" by simp
    also have "\<dots> = x + 18446744073709551616"
      using that by (intro mod_pos_pos_trivial) linarith+
    finally have "9223372036854775808 < int (unat (word_of_int x :: u64))"
      using that unfolding uint_nat by linarith
    moreover have "2 ^ 63 < k" if "9223372036854775808 < int k" for k using that by simp
    ultimately show ?thesis by blast
  qed
  let ?d = "usec_of t - usec_of s"
  have "int (unat (word_of_int ?d :: u64)) = ?d" if "s \<le> t"
    using that usec_of_mono [OF assms] bound by (intro pos) linarith+
  moreover have "2 ^ 63 < unat (word_of_int ?d :: u64)" if "t < s"
  proof -
    have "\<not> s \<le> t" using that by simp
    then show ?thesis using usec_of_mono [OF assms] bound by (intro neg) linarith+
  qed
  ultimately show ?thesis using elapsed_value [OF assms] by blast
qed

theorem usec_elapsed_exact_witness:
  "\<exists>r. get_usec_elapsed (Timeval 10 900000) (Timeval 12 100000) = Some r \<and> unat r = 1200000"
proof -
  have ok: "timeval_ok (Timeval 10 900000)" "timeval_ok (Timeval 12 100000)"
    by (simp_all add: timeval_ok_def)
  have "Timeval 10 900000 \<le> Timeval 12 100000"
    "usec_of (Timeval 12 100000) - usec_of (Timeval 10 900000) = 1200000"
    by (simp_all add: less_eq_timeval_def usec_of_def)
  with usec_elapsed_exact [OF ok] show ?thesis by (metis of_nat_eq_iff of_nat_numeral)
qed

end
