(* ===== verification/Bench_Threads.thy ===== *)
theory Bench_Threads
  imports Bench_Config
begin

section \<open>bench-nvme: the threads\<close>

text \<open>
  The concurrent part of userland-driver/tools/bench-nvme.c: the worker threads (\<open>bench_start\<close>), the
  thread that reports intervals (\<open>report_interval\<close>, \<open>print_interval_result\<close>) and the part of
  \<open>main\<close> after the options, which starts them, sleeps, sets \<open>caught_signal\<close> and waits for them. Each
  is a step function on its own program counter and local variables; a step makes at most one access
  to the shared state (\<open>caught_signal\<close>, the array \<open>th\<close>), and \<open>bench_step\<close> interleaves the steps
  freely. What a library call answers in a step is its argument \<open>a\<close>, any answer being possible.
  The steps of a thread take effect in program order and are seen by the others at once; the variables
  are plain ones in C, so a compiler that moves their accesses is outside of the model.

  Pinning, the log messages, and the failure of \<open>pthread_create\<close> and \<open>unvme_open\<close>, which the code does
  not look at, are left out; what is printed of the results is in \<open>Bench_Output\<close>. No signal handler is ever installed, so
  \<open>main\<close> is the only one to set \<open>caught_signal\<close>.
\<close>

subsection \<open>Shared data\<close>

record bench_thread =
  bt_slba :: u64
  bt_cpu :: s32
  bt_count :: u64
  bt_bytes :: u64
  bt_start :: timeval
  bt_end :: timeval

definition zero_thread :: bench_thread where
  "zero_thread = \<lparr>bt_slba = 0, bt_cpu = 0, bt_count = 0, bt_bytes = 0, bt_start = Timeval 0 0,
     bt_end = Timeval 0 0\<rparr>"

datatype io_event =
    ARead s32 ptr u64 u32 ptr \<comment> \<open>queue, buffer, block, number of blocks, descriptor\<close>
  | AWrite s32 ptr u64 u32 ptr
  | APoll ptr s32 \<comment> \<open>descriptor, result\<close>
  | Interim u64 u64 "u64 option" \<comment> \<open>requests, bytes and microseconds of an interval\<close>

definition bench :: "bench_mode \<Rightarrow> s32 \<Rightarrow> ptr \<Rightarrow> u64 \<Rightarrow> u32 \<Rightarrow> ptr \<Rightarrow> io_event" where
  "bench mode qid buf lba nblocks iod =
     (if mode = NVME_CMD_READ then ARead qid buf lba nblocks iod else AWrite qid buf lba nblocks iod)"

record answer =
  an_ptr :: ptr \<comment> \<open>\<open>unvme_alloc\<close>, \<open>unvme_aread\<close>, \<open>unvme_awrite\<close>\<close>
  an_rand :: s32
  an_ret :: s32 \<comment> \<open>\<open>unvme_apoll\<close>\<close>
  an_now :: timeval

subsection \<open>A worker\<close>

datatype worker_pc =
    WAlloc nat \<comment> \<open>the loop that allocates the buffers, at \<open>n\<close>\<close>
  | WFirst \<comment> \<open>\<open>nblocks\<close> and the first block address\<close>
  | WHead \<comment> \<open>the test of \<open>caught_signal\<close>\<close>
  | WSubmit nat \<comment> \<open>the loop that submits, at \<open>b\<close>\<close>
  | WPoll nat \<comment> \<open>the loop that polls, at \<open>b\<close>\<close>
  | WCount nat \<comment> \<open>between the two additions of a completed request\<close>
  | WEnd
  | WFault fault

record worker =
  wk_pc :: worker_pc
  wk_bufs :: "ptr list"
  wk_iod :: "ptr list"
  wk_lba :: u64
  wk_nblocks :: u64

definition worker_init :: worker where
  "worker_init = \<lparr>wk_pc = WAlloc 0, wk_bufs = replicate MAX_BATCH_SIZE 0,
     wk_iod = replicate MAX_BATCH_SIZE 0, wk_lba = 0, wk_nblocks = 0\<rparr>"

type_synonym worker_result = "(bench_thread \<times> worker \<times> io_event list) option"

definition goto :: "bench_thread \<Rightarrow> worker \<Rightarrow> worker_pc \<Rightarrow> worker_result" where
  "goto th w pc = Some (th, w\<lparr>wk_pc := pc\<rparr>, [])"

fun worker_at :: "bench_param \<Rightarrow> bool \<Rightarrow> answer \<Rightarrow> bench_thread \<Rightarrow> worker \<Rightarrow> worker_pc \<Rightarrow> worker_result" where
  "worker_at p sig a th w (WAlloc n) =
     (if n < unat (bp_batch p) then
        (if n < MAX_BATCH_SIZE then goto th (w\<lparr>wk_bufs := (wk_bufs w)[n := an_ptr a]\<rparr>) (WAlloc (n + 1))
         else goto th w (WFault OutOfBounds))
      else goto th w WFirst)"
| "worker_at p sig a th w WFirst =
     (let nblocks = bench_nblocks (bp_size p) in
      case next_lba (bp_walk p) (an_rand a) (bt_slba th) BLOCK_END nblocks of
        None \<Rightarrow> goto th w (WFault DivByZero)
      | Some lba \<Rightarrow> goto (th\<lparr>bt_start := an_now a\<rparr>) (w\<lparr>wk_nblocks := nblocks, wk_lba := lba\<rparr>) WHead)"
| "worker_at p sig a th w WHead =
     (if sig then goto (th\<lparr>bt_end := an_now a\<rparr>) w WEnd else goto th w (WSubmit 0))"
| "worker_at p sig a th w (WSubmit b) =
     (if int b < sint (bp_batch p) then
        (if b < MAX_BATCH_SIZE then
           (case next_lba (bp_walk p) (an_rand a) (wk_lba w) BLOCK_END (wk_nblocks w) of
              None \<Rightarrow> goto th w (WFault DivByZero)
            | Some lba \<Rightarrow> Some (th,
                w\<lparr>wk_iod := (wk_iod w)[b := an_ptr a], wk_lba := lba, wk_pc := WSubmit (b + 1)\<rparr>,
                [bench (bp_mode p) (bt_cpu th) (wk_bufs w ! b) (wk_lba w) (ucast (wk_nblocks w)) (an_ptr a)]))
         else goto th w (WFault OutOfBounds))
      else goto th w (WPoll 0))"
| "worker_at p sig a th w (WPoll b) =
     (if int b < sint (bp_batch p) then
        (if b < MAX_BATCH_SIZE then
           (if an_ret a = 0 then
              Some (th\<lparr>bt_bytes := bt_bytes th + scast (bp_size p)\<rparr>, w\<lparr>wk_pc := WCount b\<rparr>,
                [APoll (wk_iod w ! b) (an_ret a)])
            else Some (th, w\<lparr>wk_pc := WPoll (b + 1)\<rparr>, [APoll (wk_iod w ! b) (an_ret a)]))
         else goto th w (WFault OutOfBounds))
      else goto th w WHead)"
| "worker_at p sig a th w (WCount b) =
     goto (th\<lparr>bt_count := bt_count th + 1\<rparr>) w (WPoll (b + 1))"
| "worker_at p sig a th w WEnd = None"
| "worker_at p sig a th w (WFault f) = None"

definition worker_step ::
  "bench_param \<Rightarrow> bool \<Rightarrow> answer \<Rightarrow> bench_thread \<Rightarrow> worker \<Rightarrow> worker_result" where
  "worker_step p sig a th w = worker_at p sig a th w (wk_pc w)"

subsection \<open>The reporter\<close>

datatype report_pc =
    RHead
  | RStart nat | RStartBytes nat \<comment> \<open>the first sums, at \<open>n\<close>\<close>
  | RSleep
  | REnd nat | REndBytes nat \<comment> \<open>the second sums, at \<open>n\<close>\<close>
  | RDone
  | RFault fault

record report =
  rp_pc :: report_pc
  rp_count_start :: u64
  rp_count_end :: u64
  rp_bytes_start :: u64
  rp_bytes_end :: u64
  rp_start :: timeval
  rp_end :: timeval

definition report_init :: report where
  "report_init = \<lparr>rp_pc = RHead, rp_count_start = 0, rp_count_end = 0, rp_bytes_start = 0,
     rp_bytes_end = 0, rp_start = Timeval 0 0, rp_end = Timeval 0 0\<rparr>"

type_synonym report_result = "(report \<times> io_event list) option"

fun report_at :: "bench_param \<Rightarrow> bool \<Rightarrow> answer \<Rightarrow> bench_thread list \<Rightarrow> report \<Rightarrow> report_pc \<Rightarrow> report_result" where
  "report_at p sig a th r RHead =
     (if sig then Some (r\<lparr>rp_pc := RDone\<rparr>, [])
      else Some (r\<lparr>rp_pc := RStart 0, rp_count_start := 0, rp_count_end := 0, rp_bytes_start := 0,
        rp_bytes_end := 0, rp_start := an_now a\<rparr>, []))"
| "report_at p sig a th r (RStart n) =
     (if int n < sint (bp_ncpus p) then
        (if n < length th then
           Some (r\<lparr>rp_count_start := rp_count_start r + bt_count (th ! n), rp_pc := RStartBytes n\<rparr>, [])
         else Some (r\<lparr>rp_pc := RFault OutOfBounds\<rparr>, []))
      else Some (r\<lparr>rp_pc := RSleep\<rparr>, []))"
| "report_at p sig a th r (RStartBytes n) =
     Some (r\<lparr>rp_bytes_start := rp_bytes_start r + bt_bytes (th ! n), rp_pc := RStart (n + 1)\<rparr>, [])"
| "report_at p sig a th r RSleep = Some (r\<lparr>rp_end := an_now a, rp_pc := REnd 0\<rparr>, [])"
| "report_at p sig a th r (REnd n) =
     (if int n < sint (bp_ncpus p) then
        (if n < length th then
           Some (r\<lparr>rp_count_end := rp_count_end r + bt_count (th ! n), rp_pc := REndBytes n\<rparr>, [])
         else Some (r\<lparr>rp_pc := RFault OutOfBounds\<rparr>, []))
      else Some (r\<lparr>rp_pc := RHead\<rparr>, [Interim (rp_count_end r - rp_count_start r)
        (rp_bytes_end r - rp_bytes_start r) (get_usec_elapsed (rp_start r) (rp_end r))]))"
| "report_at p sig a th r (REndBytes n) =
     Some (r\<lparr>rp_bytes_end := rp_bytes_end r + bt_bytes (th ! n), rp_pc := REnd (n + 1)\<rparr>, [])"
| "report_at p sig a th r RDone = None"
| "report_at p sig a th r (RFault f) = None"

definition report_step ::
  "bench_param \<Rightarrow> bool \<Rightarrow> answer \<Rightarrow> bench_thread list \<Rightarrow> report \<Rightarrow> report_result" where
  "report_step p sig a th r = report_at p sig a th r (rp_pc r)"

subsection \<open>main\<close>

text \<open>The options, and what \<open>main\<close> returns when it does not get to the threads.\<close>

definition bench_setup :: "nat list option \<Rightarrow> string list \<Rightarrow> s32 + bench_param" where
  "bench_setup affinity argv =
     (case bench_options affinity (getopt_args bench_optstring argv) (bench_param_init, 0) of
        None \<Rightarrow> Inl (- 1)
      | Some (p, v) \<Rightarrow> if bp_pci p = None then Inl (- 1) else Inr p)"

datatype main_pc =
    MOpen
  | MSpawn nat
  | MReport
  | MSleep
  | MJoin nat
  | MJoinReport
  | MClose
  | MPrint nat
  | MDone
  | MFault fault

datatype main_event =
    Open "string option" \<comment> \<open>\<open>unvme_open\<close>\<close>
  | Close \<comment> \<open>\<open>unvme_close\<close>\<close>
  | Final bench_thread \<comment> \<open>\<open>print_result\<close>\<close>

record bench_state =
  bs_signal :: bool
  bs_th :: "bench_thread list"
  bs_workers :: "worker list" \<comment> \<open>the threads started so far\<close>
  bs_report :: "report option"
  bs_main :: main_pc

definition bench_init :: bench_state where
  "bench_init = \<lparr>bs_signal = False, bs_th = replicate MAX_CPU_NUM zero_thread, bs_workers = [],
     bs_report = None, bs_main = MOpen\<rparr>"

type_synonym main_result = "(bench_state \<times> main_event list) option"

definition main_goto :: "bench_state \<Rightarrow> main_pc \<Rightarrow> main_result" where
  "main_goto S pc = Some (S\<lparr>bs_main := pc\<rparr>, [])"

fun main_at :: "bench_param \<Rightarrow> bench_state \<Rightarrow> main_pc \<Rightarrow> main_result" where
  "main_at p S MOpen = Some (S\<lparr>bs_main := MSpawn 0\<rparr>, [Open (bp_pci p)])"
| "main_at p S (MSpawn n) =
     (if int n < sint (bp_ncpus p) then
        (if n < MAX_CPU_NUM then
           main_goto (S\<lparr>bs_th := (bs_th S)[n := (bs_th S ! n)
                \<lparr>bt_cpu := of_nat n, bt_slba := start_lba (bp_ncpus p) n\<rparr>],
              bs_workers := bs_workers S @ [worker_init]\<rparr>) (MSpawn (n + 1))
         else main_goto S (MFault OutOfBounds))
      else main_goto S MReport)"
| "main_at p S MReport = main_goto (S\<lparr>bs_report := Some report_init\<rparr>) MSleep"
| "main_at p S MSleep = main_goto (S\<lparr>bs_signal := True\<rparr>) (MJoin 0)"
| "main_at p S (MJoin n) =
     (if int n < sint (bp_ncpus p) then
        (if wk_pc (bs_workers S ! n) = WEnd then main_goto S (MJoin (n + 1)) else None)
      else main_goto S MJoinReport)"
| "main_at p S MJoinReport =
     (if map_option rp_pc (bs_report S) = Some RDone then main_goto S MClose else None)"
| "main_at p S MClose = Some (S\<lparr>bs_main := MPrint 0\<rparr>, [Close])"
| "main_at p S (MPrint n) =
     (if int n < sint (bp_ncpus p) then
        (if n < length (bs_th S) then Some (S\<lparr>bs_main := MPrint (n + 1)\<rparr>, [Final (bs_th S ! n)])
         else main_goto S (MFault OutOfBounds))
      else main_goto S MDone)"
| "main_at p S MDone = None"
| "main_at p S (MFault f) = None"

lemmas main_at_simps = main_at.simps main_goto_def

subsection \<open>Interleaving\<close>

datatype label = FromWorker nat io_event | FromReport io_event | FromMain main_event

inductive bench_step :: "bench_param \<Rightarrow> bench_state \<Rightarrow> label list \<Rightarrow> bench_state \<Rightarrow> bool" for p where
  main: "main_at p S (bs_main S) = Some (S', es) \<Longrightarrow> bench_step p S (map FromMain es) S'"
| worker: "i < length (bs_workers S) \<Longrightarrow>
     worker_step p (bs_signal S) a (bs_th S ! i) (bs_workers S ! i) = Some (t, w, es) \<Longrightarrow>
     bench_step p S (map (FromWorker i) es)
       (S\<lparr>bs_th := (bs_th S)[i := t], bs_workers := (bs_workers S)[i := w]\<rparr>)"
| report: "bs_report S = Some r \<Longrightarrow> report_step p (bs_signal S) a (bs_th S) r = Some (r', es) \<Longrightarrow>
     bench_step p S (map FromReport es) (S\<lparr>bs_report := Some r'\<rparr>)"

inductive_cases bench_stepE: "bench_step p S es S'"

inductive bench_run :: "bench_param \<Rightarrow> label list \<Rightarrow> bench_state \<Rightarrow> bool" for p where
  init: "bench_run p [] bench_init"
| step: "bench_run p tr S \<Longrightarrow> bench_step p S es S' \<Longrightarrow> bench_run p (tr @ es) S'"

subsection \<open>Requests stay inside the device\<close>

definition bench_param_ok :: "bench_param \<Rightarrow> bool" where
  "bench_param_ok p \<longleftrightarrow> 0 \<le> sint (bp_size p) \<and> 0 \<le> sint (bp_batch p) \<and>
     sint (bp_batch p) \<le> int MAX_BATCH_SIZE \<and> 1 \<le> sint (bp_ncpus p) \<and>
     sint (bp_ncpus p) \<le> int MAX_CPU_NUM"

lemma bench_param_okI:
  assumes "param_ok affinity p" and "sint (count_online_cpus affinity) \<le> int MAX_CPU_NUM"
  shows "bench_param_ok p"
proof -
  have "sint (bp_ncpus p) \<le> int MAX_CPU_NUM"
    using assms by (auto simp: param_ok_def MAX_CPU_NUM_def)
  with assms(1) show ?thesis by (simp add: param_ok_def bench_param_ok_def)
qed

text \<open>What holds of a worker at its program counter, and of its entry of the array.\<close>

definition worker_ok :: "bench_param \<Rightarrow> worker \<Rightarrow> bool" where
  "worker_ok p w \<longleftrightarrow> (case wk_pc w of
     WHead \<Rightarrow> wk_nblocks w = bench_nblocks (bp_size p) \<and> in_device (wk_nblocks w) (wk_lba w)
   | WSubmit b \<Rightarrow> wk_nblocks w = bench_nblocks (bp_size p) \<and> in_device (wk_nblocks w) (wk_lba w)
   | WPoll b \<Rightarrow> wk_nblocks w = bench_nblocks (bp_size p) \<and> in_device (wk_nblocks w) (wk_lba w)
   | WCount b \<Rightarrow> wk_nblocks w = bench_nblocks (bp_size p) \<and> in_device (wk_nblocks w) (wk_lba w) \<and>
       int b < sint (bp_batch p)
   | WFault f \<Rightarrow> False
   | _ \<Rightarrow> True)"

lemma worker_init_ok [simp]: "worker_ok p worker_init"
  by (simp add: worker_ok_def worker_init_def)

fun request_in_device :: "io_event \<Rightarrow> bool" where
  "request_in_device (ARead q b l n d) \<longleftrightarrow> unat l + unat n \<le> unat BLOCK_END"
| "request_in_device (AWrite q b l n d) \<longleftrightarrow> unat l + unat n \<le> unat BLOCK_END"
| "request_in_device e \<longleftrightarrow> True"

lemma worker_step_ok:
  assumes "bench_param_ok p" and "worker_ok p w" and "in_device (bench_nblocks (bp_size p)) (bt_slba t)"
    and "worker_step p sig a t w = Some (t', w', es)"
  shows "worker_ok p w' \<and> bt_slba t' = bt_slba t \<and> (\<forall>e \<in> set es. request_in_device e)"
proof -
  let ?nb = "bench_nblocks (bp_size p)"
  have nb: "unat ?nb \<le> 2 ^ 22"
    using assms(1) by (intro bench_nblocks_bounds(2)) (simp add: bench_param_ok_def)
  then have n32: "unat (ucast ?nb :: u32) = unat ?nb"
    by (simp add: unsigned_ucast_eq take_bit_nat_eq_self)
  have first: "\<exists>l. next_lba (bp_walk p) (an_rand a) (bt_slba t) BLOCK_END ?nb = Some l \<and> in_device ?nb l"
    using nb assms(3) by (rule next_lba_in_device)
  have later: "\<exists>l. next_lba (bp_walk p) (an_rand a) lba BLOCK_END ?nb = Some l \<and> in_device ?nb l"
    if "in_device ?nb lba" for lba
    using nb that by (rule next_lba_in_device)
  have batch: "n < MAX_BATCH_SIZE" if "n < unat (bp_batch p) \<or> int n < sint (bp_batch p)" for n
  proof -
    have "int n < sint (bp_batch p)"
      using that assms(1) s32_nonneg(1) [of "bp_batch p"]
      unfolding bench_param_ok_def by (metis of_nat_less_iff)
    then show ?thesis using assms(1) by (simp add: bench_param_ok_def)
  qed
  show ?thesis
  proof (cases "wk_pc w")
    case (WAlloc n)
    then show ?thesis
      using assms(4) batch [of n] by (auto simp: worker_step_def goto_def worker_ok_def split: if_splits)
  next
    case WFirst
    then show ?thesis
      using assms(4) first by (auto simp: worker_step_def goto_def worker_ok_def Let_def split: if_splits)
  next
    case WHead
    then show ?thesis
      using assms(2,4) by (auto simp: worker_step_def goto_def worker_ok_def split: if_splits)
  next
    case (WSubmit b)
    then have lba: "wk_nblocks w = ?nb" "in_device ?nb (wk_lba w)"
      using assms(2) by (auto simp: worker_ok_def)
    then show ?thesis
      using WSubmit assms(4) later [OF lba(2)] batch [of b] n32
      by (auto simp: worker_step_def goto_def worker_ok_def bench_def in_device_def split: if_splits)
  next
    case (WPoll b)
    then show ?thesis
      using assms(2,4) batch [of b]
      by (auto simp: worker_step_def goto_def worker_ok_def split: if_splits)
  next
    case (WCount b)
    then show ?thesis
      using assms(2,4) by (auto simp: worker_step_def goto_def worker_ok_def)
  qed (use assms(2,4) in \<open>simp_all add: worker_step_def worker_ok_def\<close>)
qed

text \<open>The state: how far \<open>main\<close> has got, and what holds of the threads started.\<close>

definition report_ok :: "bench_param \<Rightarrow> report \<Rightarrow> bool" where
  "report_ok p r \<longleftrightarrow> (case rp_pc r of
     RStartBytes n \<Rightarrow> int n < sint (bp_ncpus p)
   | REndBytes n \<Rightarrow> int n < sint (bp_ncpus p)
   | RFault f \<Rightarrow> False
   | _ \<Rightarrow> True)"

definition main_ok :: "bench_param \<Rightarrow> bench_state \<Rightarrow> bool" where
  "main_ok p S \<longleftrightarrow> (case bs_main S of
     MOpen \<Rightarrow> bs_workers S = [] \<and> bs_report S = None \<and> \<not> bs_signal S
   | MSpawn n \<Rightarrow> n = length (bs_workers S) \<and> int n \<le> sint (bp_ncpus p) \<and> bs_report S = None \<and> \<not> bs_signal S
   | MReport \<Rightarrow> int (length (bs_workers S)) = sint (bp_ncpus p) \<and> bs_report S = None \<and> \<not> bs_signal S
   | MSleep \<Rightarrow> int (length (bs_workers S)) = sint (bp_ncpus p) \<and> bs_report S \<noteq> None \<and> \<not> bs_signal S
   | MFault f \<Rightarrow> False
   | _ \<Rightarrow> int (length (bs_workers S)) = sint (bp_ncpus p) \<and> bs_report S \<noteq> None \<and> bs_signal S)"

definition bench_ok :: "bench_param \<Rightarrow> bench_state \<Rightarrow> bool" where
  "bench_ok p S \<longleftrightarrow> main_ok p S \<and> length (bs_th S) = MAX_CPU_NUM \<and>
     length (bs_workers S) \<le> MAX_CPU_NUM \<and>
     (\<forall>i < length (bs_workers S). worker_ok p (bs_workers S ! i) \<and>
        in_device (bench_nblocks (bp_size p)) (bt_slba (bs_th S ! i))) \<and>
     (\<forall>r. bs_report S = Some r \<longrightarrow> report_ok p r)"

lemma main_ok_threads [simp]:
  "length ws = length (bs_workers S) \<Longrightarrow>
     main_ok p (S\<lparr>bs_th := ts, bs_workers := ws\<rparr>) = main_ok p S"
  "bs_report S = Some r \<Longrightarrow> main_ok p (S\<lparr>bs_report := Some r'\<rparr>) = main_ok p S"
  by (auto simp: main_ok_def split: main_pc.split)

lemma report_step_ok:
  assumes "report_step p sig a th r = Some (r', es)" and "report_ok p r"
    and "sint (bp_ncpus p) \<le> int (length th)"
  shows "report_ok p r' \<and> (\<forall>e \<in> set es. request_in_device e)"
  using assms by (cases "rp_pc r") (auto simp: report_step_def report_ok_def split: if_splits)

lemma main_step_ok:
  assumes "bench_param_ok p" and "bench_ok p S" and "main_at p S (bs_main S) = Some (S', es)"
  shows "bench_ok p S'"
proof (cases "bs_main S")
  case (MSpawn n)
  have nb: "unat (bench_nblocks (bp_size p)) \<le> 2 ^ 22"
    using assms(1) by (intro bench_nblocks_bounds(2)) (simp add: bench_param_ok_def)
  have n: "n = length (bs_workers S)" "length (bs_th S) = MAX_CPU_NUM"
    using MSpawn assms(2) by (simp_all add: bench_ok_def main_ok_def)
  show ?thesis
  proof (cases "int n < sint (bp_ncpus p)")
    case True
    have "n < MAX_CPU_NUM" using True assms(1) by (simp add: bench_param_ok_def)
    moreover have "in_device (bench_nblocks (bp_size p)) (start_lba (bp_ncpus p) n)"
      using assms(1) True nb by (intro start_lba_in_device) (simp_all add: bench_param_ok_def)
    ultimately show ?thesis
      using MSpawn True n assms(2,3)
      by (auto simp: main_goto_def bench_ok_def main_ok_def nth_append nth_list_update less_Suc_eq)
  next
    case False
    then show ?thesis using MSpawn assms(2,3) by (auto simp: main_goto_def bench_ok_def main_ok_def)
  qed
next
  case MReport
  then show ?thesis
    using assms(2,3) by (auto simp: main_goto_def bench_ok_def main_ok_def report_ok_def report_init_def)
next
  case (MPrint n)
  have "int n < sint (bp_ncpus p) \<longrightarrow> n < length (bs_th S)"
    using assms(1,2) by (auto simp: bench_ok_def bench_param_ok_def)
  with MPrint show ?thesis
    using assms(2,3) by (auto simp: main_goto_def bench_ok_def main_ok_def split: if_splits)
qed (use assms(1-3) in \<open>auto simp: main_goto_def bench_ok_def main_ok_def bench_param_ok_def split: if_splits\<close>)

lemma bench_step_ok:
  assumes "bench_param_ok p" and "bench_ok p S" and "bench_step p S es S'"
  shows "bench_ok p S' \<and> (\<forall>i e. FromWorker i e \<in> set es \<longrightarrow> request_in_device e)"
  using assms(3)
proof (rule bench_stepE, goal_cases)
  case 1
  then show ?case using main_step_ok [OF assms(1,2)] by auto
next
  case (2 i a t w es')
  have pre: "worker_ok p (bs_workers S ! i)" "in_device (bench_nblocks (bp_size p)) (bt_slba (bs_th S ! i))"
    using assms(2) 2(3) by (simp_all add: bench_ok_def)
  from worker_step_ok [OF assms(1) pre 2(4)] show ?case
    using assms(2) 2(1,2,3) by (auto simp: bench_ok_def nth_list_update)
next
  case (3 r a r' es')
  have "report_ok p r" "sint (bp_ncpus p) \<le> int (length (bs_th S))"
    using assms(1,2) 3(3) by (simp_all add: bench_ok_def bench_param_ok_def)
  from report_step_ok [OF 3(4) this] show ?case
    using assms(2) 3 by (auto simp: bench_ok_def)
qed

lemma bench_run_ok:
  assumes "bench_param_ok p" and "bench_run p tr S"
  shows "bench_ok p S \<and> (\<forall>i e. FromWorker i e \<in> set tr \<longrightarrow> request_in_device e)"
  using assms(2)
proof (induction rule: bench_run.induct)
  case init
  then show ?case
    using assms(1) by (auto simp: bench_ok_def main_ok_def bench_init_def bench_param_ok_def)
next
  case (step tr S es S')
  then show ?case using bench_step_ok [OF assms(1)] by (metis Un_iff set_append)
qed

text \<open>
  C4. Whatever the threads do in whatever order, with parameters in their ranges and at
  most 32 CPUs no request reaches beyond the end of the device, in any of the three walks and however
  \<open>rand\<close> behaves, and no thread accesses an array out of its bounds.
\<close>

theorem bench_requests_in_device:
  assumes "bench_run p tr S" and "param_ok affinity p"
    and "sint (count_online_cpus affinity) \<le> int MAX_CPU_NUM"
  shows "(\<forall>i e. FromWorker i e \<in> set tr \<longrightarrow> request_in_device e) \<and>
    (\<forall>f. bs_main S \<noteq> MFault f \<and> (\<forall>w \<in> set (bs_workers S). wk_pc w \<noteq> WFault f) \<and>
      (\<forall>r. bs_report S = Some r \<longrightarrow> rp_pc r \<noteq> RFault f))"
proof -
  have run: "bench_ok p S" "\<forall>i e. FromWorker i e \<in> set tr \<longrightarrow> request_in_device e"
    using bench_run_ok [OF bench_param_okI [OF assms(2,3)] assms(1)] by blast+
  have "wk_pc w \<noteq> WFault f" if "w \<in> set (bs_workers S)" for w f
    using run(1) that by (auto simp: bench_ok_def worker_ok_def in_set_conv_nth)
  moreover have "rp_pc r \<noteq> RFault f" if "bs_report S = Some r" for r f
    using run(1) that by (auto simp: bench_ok_def report_ok_def)
  moreover have "bs_main S \<noteq> MFault f" for f
    using run(1) by (auto simp: bench_ok_def main_ok_def)
  ultimately show ?thesis using run(2) by blast
qed

subsection \<open>The counters\<close>

fun io_completed :: "io_event \<Rightarrow> bool" where
  "io_completed (APoll d r) \<longleftrightarrow> r = 0"
| "io_completed e \<longleftrightarrow> False"

fun completed_by :: "nat \<Rightarrow> label \<Rightarrow> bool" where
  "completed_by i (FromWorker j e) \<longleftrightarrow> j = i \<and> io_completed e"
| "completed_by i (FromReport e) \<longleftrightarrow> False"
| "completed_by i (FromMain e) \<longleftrightarrow> False"

definition completions :: "nat \<Rightarrow> label list \<Rightarrow> nat" where
  "completions i tr = length (filter (completed_by i) tr)"

lemma completions_simps [simp]:
  "completions i [] = 0" "completions i (xs @ ys) = completions i xs + completions i ys"
  "completions i (map FromReport es) = 0" "completions i (map FromMain es') = 0"
  "completions i (map (FromWorker j) es) = (if j = i then length (filter io_completed es) else 0)"
  by (simp_all add: completions_def filter_map comp_def)

definition counting :: "worker \<Rightarrow> u64" where
  "counting w = (case wk_pc w of WCount b \<Rightarrow> 1 | _ \<Rightarrow> 0)"

lemma counting_simps [simp]:
  "wk_pc w = WCount b \<Longrightarrow> counting w = 1" "\<forall>b. wk_pc w \<noteq> WCount b \<Longrightarrow> counting w = 0"
  by (simp_all add: counting_def split: worker_pc.split)

lemma worker_step_counts:
  assumes "worker_step p sig a t w = Some (t', w', es)"
  shows "bt_count t' + counting w' = bt_count t + counting w + of_nat (length (filter io_completed es)) \<and>
    bt_bytes t' = bt_bytes t + of_nat (length (filter io_completed es)) * scast (bp_size p) \<and>
    unat (counting w') \<le> length (filter io_completed es) \<and> bt_cpu t' = bt_cpu t"
  using assms
  by (cases "wk_pc w")
    (auto simp: worker_step_def goto_def counting_def bench_def Let_def split: if_splits option.splits)

text \<open>The counters against the completions so far; an entry also keeps the number of its CPU.\<close>

definition counts_ok :: "bench_param \<Rightarrow> label list \<Rightarrow> bench_state \<Rightarrow> bool" where
  "counts_ok p tr S \<longleftrightarrow>
     (\<forall>i < length (bs_workers S). bt_count (bs_th S ! i) + counting (bs_workers S ! i) = of_nat (completions i tr) \<and>
        bt_bytes (bs_th S ! i) = of_nat (completions i tr) * scast (bp_size p) \<and>
        unat (counting (bs_workers S ! i)) \<le> completions i tr \<and> bt_cpu (bs_th S ! i) = of_nat i) \<and>
     (\<forall>i. length (bs_workers S) \<le> i \<longrightarrow> completions i tr = 0) \<and>
     (\<forall>i < length (bs_th S). length (bs_workers S) \<le> i \<longrightarrow> bt_count (bs_th S ! i) = 0 \<and> bt_bytes (bs_th S ! i) = 0)"

lemma main_step_counts:
  assumes "bench_ok p S" and "counts_ok p tr S" and "main_at p S (bs_main S) = Some (S', es)"
  shows "counts_ok p tr S'"
proof (cases "bs_main S")
  case (MSpawn n)
  have n: "n = length (bs_workers S)" using MSpawn assms(1) by (simp add: bench_ok_def main_ok_def)
  have "length (bs_th S) = MAX_CPU_NUM" using assms(1) by (simp add: bench_ok_def)
  then show ?thesis
    using MSpawn n assms(2,3)
    by (auto simp: main_goto_def counts_ok_def counting_def worker_init_def nth_append nth_list_update less_Suc_eq split: if_splits)
qed (use assms(2,3) in \<open>auto simp: main_goto_def counts_ok_def split: if_splits\<close>)

lemma bench_step_counts:
  assumes "bench_ok p S" and "counts_ok p tr S" and "bench_step p S es S'"
  shows "counts_ok p (tr @ es) S'"
  using assms(3)
proof (rule bench_stepE, goal_cases)
  case 1
  with main_step_counts [OF assms(1,2)] show ?case by (simp add: counts_ok_def)
next
  case (2 i a t w es')
  have "length (bs_workers S) \<le> length (bs_th S)" using assms(1) by (simp add: bench_ok_def)
  with 2(3) have i: "i < length (bs_th S)" by simp
  note worker_step_counts [OF 2(4)]
  moreover have "bt_count (bs_th S ! i) + counting (bs_workers S ! i) = of_nat (completions i tr)"
    "bt_bytes (bs_th S ! i) = of_nat (completions i tr) * scast (bp_size p)"
    using assms(2) 2(3) by (simp_all add: counts_ok_def)
  ultimately have "bt_count t + counting w = of_nat (completions i (tr @ es))"
    "bt_bytes t = of_nat (completions i (tr @ es)) * scast (bp_size p)"
    "unat (counting w) \<le> completions i (tr @ es)" "bt_cpu t = of_nat i"
    using assms(2) 2(3) by (simp_all add: 2(1) distrib_right counts_ok_def)
  then show ?case
    using assms(2) i 2(3) by (auto simp: counts_ok_def 2(1,2) nth_list_update)
next
  case (3 r a r' es')
  with assms(2) show ?case by (simp add: counts_ok_def)
qed

lemma bench_run_counts:
  assumes "bench_param_ok p" and "bench_run p tr S"
  shows "counts_ok p tr S"
  using assms(2)
proof (induction rule: bench_run.induct)
  case init
  then show ?case by (simp add: counts_ok_def bench_init_def zero_thread_def)
next
  case (step tr S es S')
  then show ?case using bench_run_ok [OF assms(1) step.hyps(1)] bench_step_counts by blast
qed

text \<open>
  C5. The counters are exact at any moment, whatever the interleaving: the bytes of a thread
  are the size of a request times the requests it has seen completed, and its count is their number, but
  for the one it is just about to add; requests that time out are not counted, and a thread does not
  touch the counters of another one.
\<close>

theorem bench_counts_completions:
  assumes "bench_param_ok p" and "bench_run p tr S" and "i < length (bs_workers S)"
  shows "bt_bytes (bs_th S ! i) = of_nat (completions i tr) * scast (bp_size p) \<and>
    (if \<exists>b. wk_pc (bs_workers S ! i) = WCount b then bt_count (bs_th S ! i) + 1 = of_nat (completions i tr)
     else bt_count (bs_th S ! i) = of_nat (completions i tr))"
  using bench_run_counts [OF assms(1,2)] assms(3)
  by (auto simp: counts_ok_def)

subsection \<open>An executable scheduler\<close>

text \<open>A run given by the choices of the scheduler and the answers of the library.\<close>

datatype choice = Main | Worker nat answer | Report answer

fun bench_choice :: "bench_param \<Rightarrow> bench_state \<Rightarrow> choice \<Rightarrow> (label list \<times> bench_state) option" where
  "bench_choice p S Main =
     map_option (\<lambda>(S', es). (map FromMain es, S')) (main_at p S (bs_main S))"
| "bench_choice p S (Worker i a) =
     (if i < length (bs_workers S) then
        map_option (\<lambda>(t, w, es). (map (FromWorker i) es,
            S\<lparr>bs_th := (bs_th S)[i := t], bs_workers := (bs_workers S)[i := w]\<rparr>))
          (worker_step p (bs_signal S) a (bs_th S ! i) (bs_workers S ! i))
      else None)"
| "bench_choice p S (Report a) =
     Option.bind (bs_report S) (\<lambda>r. map_option (\<lambda>(r', es). (map FromReport es, S\<lparr>bs_report := Some r'\<rparr>))
       (report_step p (bs_signal S) a (bs_th S) r))"

fun bench_exec :: "bench_param \<Rightarrow> choice list \<Rightarrow> label list \<times> bench_state \<Rightarrow> (label list \<times> bench_state) option" where
  "bench_exec p [] x = Some x"
| "bench_exec p (c # cs) (tr, S) =
     (case bench_choice p S c of None \<Rightarrow> None | Some (es, S') \<Rightarrow> bench_exec p cs (tr @ es, S'))"

lemma bench_choice_step: "bench_choice p S c = Some (es, S') \<Longrightarrow> bench_step p S es S'"
  by (cases c) (auto intro: bench_step.intros split: if_splits bind_splits)

lemma bench_exec_run:
  assumes "bench_exec p cs (tr, S) = Some (tr', S')" and "bench_run p tr S"
  shows "bench_run p tr' S'"
  using assms
proof (induction cs arbitrary: tr S)
  case (Cons c cs)
  then show ?case by (auto split: option.splits intro: bench_run.step bench_choice_step)
qed simp

definition demo_answer :: answer where
  "demo_answer = \<lparr>an_ptr = 0x1000, an_rand = 7, an_ret = 0, an_now = Timeval 1 0\<rparr>"

text \<open>
  One worker on one CPU with a batch of one request; it completes the request between the two
  readings of the reporter.
\<close>

definition demo_choices :: "choice list" where
  "demo_choices = [Main, Main, Main, Main] @ replicate 5 (Report demo_answer) @
     replicate 9 (Worker 0 demo_answer) @ replicate 3 (Report demo_answer)"

definition demo_result :: "(label list \<times> bench_state) option" where
  "demo_result = bench_exec bench_param_init demo_choices ([], bench_init)"

definition demo_trace :: "label list" where
  "demo_trace = [FromMain (Open None), FromWorker 0 (ARead 0 0x1000 7 1 0x1000), FromWorker 0 (APoll 0x1000 0),
     FromReport (Interim 1 64 (Some 0))]"

lemma demo_exec:
  "map_option (\<lambda>(tr, S). (tr, length (bs_workers S), bt_bytes (bs_th S ! 0), bt_count (bs_th S ! 0))) demo_result =
     Some (demo_trace, 1, 64, 1)"
  by code_simp

lemma demo_run:
  obtains S where "bench_run bench_param_init demo_trace S" "length (bs_workers S) = 1"
proof -
  obtain S where "demo_result = Some (demo_trace, S)" "length (bs_workers S) = 1"
    using demo_exec by auto
  then show thesis
    unfolding demo_result_def by (blast intro: that bench_exec_run bench_run.init)
qed

lemma demo_param_ok: "bench_param_ok bench_param_init"
  by (simp add: bench_param_ok_def bench_param_init_def MAX_BATCH_SIZE_def MAX_CPU_NUM_def)

theorem bench_requests_in_device_witness:
  "\<exists>S. bench_run bench_param_init demo_trace S \<and> request_in_device (ARead 0 0x1000 7 1 0x1000) \<and>
     bs_main S \<noteq> MFault OutOfBounds"
proof -
  obtain S where run: "bench_run bench_param_init demo_trace S" by (rule demo_run)
  have "sint (count_online_cpus (Some [0])) \<le> int MAX_CPU_NUM"
    by (simp add: count_online_cpus_def MAX_CPU_NUM_def)
  from bench_requests_in_device [OF run bench_param_init_ok this] run show ?thesis
    by (auto simp: demo_trace_def)
qed

theorem bench_counts_completions_witness:
  "\<exists>S. bench_run bench_param_init demo_trace S \<and> completions 0 demo_trace = 1 \<and> bt_bytes (bs_th S ! 0) = 64"
proof -
  obtain S where run: "bench_run bench_param_init demo_trace S" "length (bs_workers S) = 1" by (rule demo_run)
  have one: "completions 0 demo_trace = 1" by (simp add: demo_trace_def completions_def)
  from bench_counts_completions [OF demo_param_ok run(1), of 0] run(2) one
  have "bt_bytes (bs_th S ! 0) = 64" by (simp add: bench_param_init_def)
  with run one show ?thesis by blast
qed

end
