(* ===== verification/Bench_Progress.thy ===== *)
theory Bench_Progress
  imports Bench_Threads
begin

section \<open>bench-nvme: what is reported, and the end\<close>

text \<open>
  Two properties of all interleavings of the threads of bench-nvme: the interval reports count no
  request twice, by an invariant of the reporter's partial sums against the counters as they are now,
  and the program ends after \<open>caught_signal\<close> is set, by a measure every step decreases and the
  absence of deadlocks.
\<close>

subsection \<open>The interval reports\<close>

fun interim_count :: "label \<Rightarrow> nat" where
  "interim_count (FromReport (Interim c b e)) = unat c"
| "interim_count l = 0"

definition interim_total :: "label list \<Rightarrow> nat" where
  "interim_total tr = sum_list (map interim_count tr)"

lemma interim_total_simps [simp]:
  "interim_total [] = 0" "interim_total (xs @ ys) = interim_total xs + interim_total ys"
  "interim_total (map (FromWorker i) es) = 0" "interim_total (map FromMain es') = 0"
  by (simp_all add: interim_total_def comp_def)

text \<open>
  What holds while the reporter sums up, with \<open>c\<close> the counters now and \<open>R\<close> what it has reported before:
  nothing that is in a first sum, or still to be read for it, is missing from \<open>R\<close>.
\<close>

definition report_inv :: "nat \<Rightarrow> (nat \<Rightarrow> nat) \<Rightarrow> nat \<Rightarrow> report \<Rightarrow> bool" where
  "report_inv N c R r \<longleftrightarrow> (let first = unat (rp_count_start r); second = unat (rp_count_end r) in
     case rp_pc r of
       RStart n \<Rightarrow> n \<le> N \<and> R \<le> first + sum c {n ..< N} \<and> first \<le> sum c {..< n} \<and> second = 0
     | RStartBytes n \<Rightarrow> n < N \<and> R \<le> first + sum c {Suc n ..< N} \<and> first \<le> sum c {..< Suc n} \<and> second = 0
     | RSleep \<Rightarrow> R \<le> first \<and> first \<le> sum c {..< N} \<and> second = 0
     | REnd n \<Rightarrow> n \<le> N \<and> R \<le> first \<and> first \<le> second + sum c {n ..< N} \<and> second \<le> sum c {..< n}
     | REndBytes n \<Rightarrow>
         n < N \<and> R \<le> first \<and> first \<le> second + sum c {Suc n ..< N} \<and> second \<le> sum c {..< Suc n}
     | _ \<Rightarrow> R \<le> sum c {..< N})"

lemma report_inv_mono:
  assumes "report_inv N c R r" and "\<And>i. i < N \<Longrightarrow> c i \<le> c' i"
  shows "report_inv N c' R r"
proof -
  have le: "sum c A \<le> sum c' A" if "A \<subseteq> {..< N}" for A
    using assms(2) that by (intro sum_mono) auto
  have up: "sum c {n ..< N} \<le> sum c' {n ..< N}" for n by (rule le) auto
  have down: "sum c {..< n} \<le> sum c' {..< n}" if "n \<le> N" for n using that by (intro le) auto
  have whole: "sum c {..< N} \<le> sum c' {..< N}" by (rule le) simp
  note inv = assms(1) [unfolded report_inv_def Let_def]
  show ?thesis
  proof (cases "rp_pc r")
    case (RStart n)
    with inv up [of n] down [of n] show ?thesis by (simp add: report_inv_def Let_def)
  next
    case (RStartBytes n)
    with inv up [of "Suc n"] down [of "Suc n"] show ?thesis
      by (simp add: report_inv_def Let_def del: sum.lessThan_Suc)
  next
    case RSleep
    with inv whole show ?thesis by (simp add: report_inv_def Let_def)
  next
    case (REnd n)
    with inv up [of n] down [of n] show ?thesis by (simp add: report_inv_def Let_def)
  next
    case (REndBytes n)
    with inv up [of "Suc n"] down [of "Suc n"] show ?thesis
      by (simp add: report_inv_def Let_def del: sum.lessThan_Suc)
  qed (use inv whole in \<open>simp_all add: report_inv_def Let_def\<close>)
qed

lemma report_step_inv:
  assumes "report_inv N c R r" and "report_step p sig a th r = Some (r', es)"
    and "int N = sint (bp_ncpus p)" and "\<And>i. i < N \<Longrightarrow> c i = unat (bt_count (th ! i))"
    and "sum c {..< N} < 2 ^ 64" and "N \<le> length th"
  shows "report_inv N c (R + interim_total (map FromReport es)) r'"
proof -
  have split: "sum c {n ..< N} = c n + sum c {Suc n ..< N}" "sum c {..< Suc n} = sum c {..< n} + c n"
    if "n < N" for n
    using that by (simp_all add: sum.atLeast_Suc_lessThan)
  have whole: "sum c {..< n} \<le> sum c {..< N}" if "n \<le> N" for n
    using that by (intro sum_mono2) auto
  have add: "unat (x + bt_count (th ! n)) = unat x + c n"
    if "n < N" "unat x \<le> sum c {..< n}" for x n
    using that whole [of "Suc n"] split(2) [OF that(1)] assms(4) [OF that(1)] assms(5)
    by (intro trans [OF unat_small_add]) simp_all
  show ?thesis
  proof (cases "rp_pc r")
    case (RStart n)
    then show ?thesis
      using assms(1,2,3,6) add [of n "rp_count_start r"] split [of n] whole [of n]
      by (auto simp: report_inv_def Let_def report_step_def interim_total_def split: if_splits)
  next
    case (REnd n)
    show ?thesis
    proof (cases "n < N")
      case True
      then show ?thesis
        using REnd assms(1,2,3,6) add [of n "rp_count_end r"] split [of n]
        by (auto simp: report_inv_def Let_def report_step_def interim_total_def split: if_splits)
    next
      case False
      then have n: "n = N" "R \<le> unat (rp_count_start r)" "unat (rp_count_start r) \<le> unat (rp_count_end r)"
        "unat (rp_count_end r) \<le> sum c {..< N}"
        using REnd assms(1) by (auto simp: report_inv_def Let_def)
      then have "unat (rp_count_end r - rp_count_start r) = unat (rp_count_end r) - unat (rp_count_start r)"
        by (simp add: unat_sub word_le_nat_alt)
      then show ?thesis
        using REnd assms(2,3) n by (auto simp: report_inv_def Let_def report_step_def interim_total_def split: if_splits)
    qed
  qed (use assms(1,2,3) in \<open>auto simp: report_inv_def Let_def report_step_def interim_total_def
      atLeast0LessThan split: if_splits\<close>)
qed


text \<open>At every point, what has been reported is covered by the counters.\<close>

lemma report_inv_total:
  assumes "report_inv N c R r"
  shows "R \<le> sum c {..< N}"
proof -
  have split: "sum c {..< n} + sum c {n ..< N} = sum c {..< N}" if "n \<le> N" for n
    using that by (simp add: lessThan_atLeast0 sum.atLeastLessThan_concat)
  show ?thesis
  proof (cases "rp_pc r")
    case (RStart n)
    with assms split [of n] show ?thesis by (simp add: report_inv_def Let_def)
  next
    case (RStartBytes n)
    with assms split [of "Suc n"] show ?thesis
      by (simp add: report_inv_def Let_def del: sum.lessThan_Suc)
  next
    case (REnd n)
    with assms split [of n] show ?thesis by (simp add: report_inv_def Let_def)
  next
    case (REndBytes n)
    with assms split [of "Suc n"] show ?thesis
      by (simp add: report_inv_def Let_def del: sum.lessThan_Suc)
  qed (use assms in \<open>simp_all add: report_inv_def Let_def\<close>)
qed

definition thread_count :: "bench_state \<Rightarrow> nat \<Rightarrow> nat" where
  "thread_count S i = unat (bt_count (bs_th S ! i))"

lemma thread_count_le:
  assumes "bench_param_ok p" and "bench_run p tr S" and "i < length (bs_workers S)"
    and "completions i tr < 2 ^ 64"
  shows "thread_count S i + unat (counting (bs_workers S ! i)) = completions i tr"
proof -
  let ?c = "bt_count (bs_th S ! i)" and ?w = "counting (bs_workers S ! i)" and ?n = "completions i tr"
  have eq: "?c + ?w = of_nat ?n"
    using bench_run_counts [OF assms(1,2)] assms(3) by (simp add: counts_ok_def)
  have le: "unat ?w \<le> ?n"
    using bench_run_counts [OF assms(1,2)] assms(3) by (simp add: counts_ok_def)
  then have "?c = of_nat (?n - unat ?w)" using eq by (simp add: of_nat_diff eq_diff_eq)
  then have "unat ?c = ?n - unat ?w"
    using assms(4) by (simp add: unsigned_of_nat take_bit_nat_eq_self)
  with le show ?thesis by (simp add: thread_count_def)
qed

lemma completions_mono:
  assumes "bench_step p S es S'"
  shows "completions i tr \<le> completions i (tr @ es)"
  by simp

lemma thread_count_mono:
  assumes "bench_param_ok p" and "bench_run p tr S" and "bench_step p S es S'" and "i < length (bs_workers S)"
    and "completions i (tr @ es) < 2 ^ 64"
  shows "thread_count S i \<le> thread_count S' i"
  using assms(3)
proof (rule bench_stepE, goal_cases)
  case 1
  then show ?case
    using assms(4) bench_run_ok [OF assms(1,2)]
    by (cases "bs_main S") (auto simp: main_goto_def thread_count_def bench_ok_def main_ok_def nth_list_update split: if_splits)
next
  case (2 j a t w es')
  show ?case
  proof (cases "j = i")
    case True
    have run: "bench_run p (tr @ es) S'" using assms(2,3) by (rule bench_run.step)
    have i: "i < length (bs_th S)"
      using bench_run_ok [OF assms(1,2)] assms(4) by (simp add: bench_ok_def)
    have now: "thread_count S' i + unat (counting w) = completions i tr + length (filter io_completed es')"
      using thread_count_le [OF assms(1) run _ assms(5)] assms(4) True 2(1,2) by simp
    have before: "thread_count S i + unat (counting (bs_workers S ! i)) = completions i tr"
      using thread_count_le [OF assms(1,2,4)] assms(5) by simp
    have "unat (counting w) \<le> length (filter io_completed es')"
      using worker_step_counts [OF 2(4)] by simp
    with now before show ?thesis by linarith
  next
    case False
    then show ?thesis by (simp add: thread_count_def 2(2))
  qed
next
  case (3 r a r' es')
  then show ?case by (simp add: thread_count_def)
qed

definition interim_inv :: "bench_param \<Rightarrow> label list \<Rightarrow> bench_state \<Rightarrow> bool" where
  "interim_inv p tr S \<longleftrightarrow> (case bs_report S of
     None \<Rightarrow> interim_total tr = 0
   | Some r \<Rightarrow> report_inv (nat (sint (bp_ncpus p))) (thread_count S) (interim_total tr) r)"

lemma bench_step_interim:
  assumes "bench_param_ok p" and "bench_run p tr S" and "bench_step p S es S'" and "interim_inv p tr S"
    and "(\<Sum>i < nat (sint (bp_ncpus p)). completions i (tr @ es)) < 2 ^ 64"
  shows "interim_inv p (tr @ es) S'"
proof -
  let ?N = "nat (sint (bp_ncpus p))"
  have ok: "bench_ok p S" using bench_run_ok [OF assms(1,2)] by blast
  have started: "length (bs_workers S) = ?N" if "bs_report S \<noteq> None"
    using ok that by (cases "bs_main S") (auto simp: bench_ok_def main_ok_def)
  have small: "completions i (tr @ es) < 2 ^ 64" if "i < ?N" for i
    using that assms(5) member_le_sum [of i "{..< ?N}" "\<lambda>i. completions i (tr @ es)"] by simp
  have mono: "thread_count S i \<le> thread_count S' i" if "bs_report S \<noteq> None" "i < ?N" for i
    using thread_count_mono [OF assms(1-3)] small started that by simp
  have grows: "interim_inv p tr S'" if "bs_report S' = bs_report S"
    using assms(4) that mono report_inv_mono unfolding interim_inv_def
    by (cases "bs_report S") auto
  from assms(3) show ?thesis
  proof (rule bench_stepE, goal_cases)
    case 1
    show ?case
    proof (cases "bs_main S = MReport")
      case True
      then have "interim_total tr = 0" "bs_report S' = Some report_init"
        using ok assms(4) 1(2) by (auto simp: main_goto_def interim_inv_def bench_ok_def main_ok_def)
      then show ?thesis using 1(1) by (simp add: interim_inv_def report_inv_def report_init_def Let_def)
    next
      case False
      then have "bs_report S' = bs_report S"
        using 1(2) by (cases "bs_main S") (auto simp: main_goto_def split: if_splits)
      moreover have "interim_total (tr @ es) = interim_total tr" using 1(1) by simp
      ultimately show ?thesis using grows by (simp only: interim_inv_def)
    qed
  next
    case (2 i a t w es')
    then have "bs_report S' = bs_report S" "interim_total (tr @ es) = interim_total tr" by simp_all
    with grows show ?case by (cases "bs_report S") (simp_all add: interim_inv_def)
  next
    case (3 r a r' es')
    have inv: "report_inv ?N (thread_count S) (interim_total tr) r"
      using assms(4) 3(3) by (simp add: interim_inv_def)
    have "thread_count S i \<le> completions i tr" if "i < ?N" for i
      using thread_count_le [OF assms(1,2), of i] small [OF that] started that 3(3) by simp
    then have "sum (thread_count S) {..< ?N} \<le> (\<Sum>i < ?N. completions i tr)"
      by (intro sum_mono) simp
    with assms(5) have bound: "sum (thread_count S) {..< ?N} < 2 ^ 64" by (simp add: 3(1))
    have "report_inv ?N (thread_count S) (interim_total tr + interim_total es) r'"
      unfolding 3(1)
      by (rule report_step_inv [OF inv 3(4) _ _ bound])
        (use assms(1) ok in \<open>auto simp: thread_count_def bench_param_ok_def bench_ok_def nat_le_iff\<close>)
    then show ?case by (simp add: interim_inv_def thread_count_def [abs_def] 3(2))
  qed
qed

lemma bench_run_interim:
  assumes "bench_param_ok p" and "bench_run p tr S"
    and "(\<Sum>i < nat (sint (bp_ncpus p)). completions i tr) < 2 ^ 64"
  shows "interim_inv p tr S"
  using assms(2,3)
proof (induction rule: bench_run.induct)
  case init
  then show ?case by (simp add: interim_inv_def bench_init_def)
next
  case (step tr S es S')
  have "(\<Sum>i < nat (sint (bp_ncpus p)). completions i tr) \<le>
      (\<Sum>i < nat (sint (bp_ncpus p)). completions i (tr @ es))"
    by (intro sum_mono) simp
  with step show ?case
    using bench_step_interim [OF assms(1) step.hyps] by simp
qed

text \<open>
  C21. The interval reports count no request twice, although the reporter reads the counters
  while the workers change them: the requests of all intervals reported so far are never more than the
  requests that have completed, and no interval is negative.
\<close>

theorem interim_reports_count_once:
  assumes "bench_param_ok p" and "bench_run p tr S"
    and "(\<Sum>i < nat (sint (bp_ncpus p)). completions i tr) < 2 ^ 64"
  shows "interim_total tr \<le> (\<Sum>i < nat (sint (bp_ncpus p)). completions i tr)"
proof (cases "bs_report S")
  case None
  then show ?thesis using bench_run_interim [OF assms] by (simp add: interim_inv_def)
next
  case (Some r)
  let ?N = "nat (sint (bp_ncpus p))"
  have ok: "bench_ok p S" using bench_run_ok [OF assms(1,2)] by blast
  have started: "length (bs_workers S) = ?N"
    using ok Some by (cases "bs_main S") (auto simp: bench_ok_def main_ok_def)
  have small: "completions i tr < 2 ^ 64" if "i < ?N" for i
    using that assms(3) member_le_sum [of i "{..< ?N}" "\<lambda>i. completions i tr"] by simp
  have "thread_count S i \<le> completions i tr" if "i < ?N" for i
    using thread_count_le [OF assms(1,2), of i] small [OF that] started that by simp
  then have le: "sum (thread_count S) {..< ?N} \<le> (\<Sum>i < ?N. completions i tr)"
    by (intro sum_mono) simp
  have "interim_total tr \<le> sum (thread_count S) {..< ?N}"
    using bench_run_interim [OF assms] Some report_inv_total by (simp add: interim_inv_def)
  with le show ?thesis by linarith
qed

theorem interim_reports_count_once_witness:
  "interim_total demo_trace = 1 \<and> completions 0 demo_trace = 1 \<and>
     interim_total demo_trace \<le> completions 0 demo_trace"
proof -
  obtain S where run: "bench_run bench_param_init demo_trace S" by (rule demo_run)
  have one: "nat (sint (bp_ncpus bench_param_init)) = 1" by (simp add: bench_param_init_def)
  have counts: "completions 0 demo_trace = 1" "interim_total demo_trace = 1"
    by (simp_all add: demo_trace_def completions_def interim_total_def)
  from interim_reports_count_once [OF demo_param_ok run] show ?thesis
    unfolding one using counts by simp
qed

subsection \<open>The end of the benchmark\<close>

text \<open>
  How many steps a thread can still make once \<open>caught_signal\<close> is set, with batches of \<open>B\<close> requests
  and \<open>N\<close> CPUs: a worker finishes its batch, the reporter its interval.
\<close>

fun worker_rank :: "nat \<Rightarrow> worker_pc \<Rightarrow> nat" where
  "worker_rank B (WAlloc n) = 3 + (B - n)"
| "worker_rank B WFirst = 2"
| "worker_rank B WHead = 1"
| "worker_rank B (WSubmit b) = 3 + 2 * B + (B - b)"
| "worker_rank B (WPoll b) = 2 + 2 * (B - b)"
| "worker_rank B (WCount b) = 1 + 2 * (B - b)"
| "worker_rank B WEnd = 0"
| "worker_rank B (WFault f) = 0"

fun report_rank :: "nat \<Rightarrow> report_pc \<Rightarrow> nat" where
  "report_rank N RHead = 1"
| "report_rank N (RStart n) = 4 + 2 * N + 2 * (N - n)"
| "report_rank N (RStartBytes n) = 3 + 2 * N + 2 * (N - n)"
| "report_rank N RSleep = 3 + 2 * N"
| "report_rank N (REnd n) = 2 + 2 * (N - n)"
| "report_rank N (REndBytes n) = 1 + 2 * (N - n)"
| "report_rank N RDone = 0"
| "report_rank N (RFault f) = 0"

fun main_rank :: "nat \<Rightarrow> main_pc \<Rightarrow> nat" where
  "main_rank N (MJoin n) = 4 + N + (N - n)"
| "main_rank N MJoinReport = 3 + N"
| "main_rank N MClose = 2 + N"
| "main_rank N (MPrint n) = 1 + (N - n)"
| "main_rank N pc = 0"

definition bench_rank :: "bench_param \<Rightarrow> bench_state \<Rightarrow> nat" where
  "bench_rank p S = main_rank (nat (sint (bp_ncpus p))) (bs_main S) +
     sum_list (map (\<lambda>w. worker_rank (nat (sint (bp_batch p))) (wk_pc w)) (bs_workers S)) +
     (case bs_report S of None \<Rightarrow> 0 | Some r \<Rightarrow> report_rank (nat (sint (bp_ncpus p))) (rp_pc r))"

lemma batch_nat: "bench_param_ok p \<Longrightarrow> unat (bp_batch p) = nat (sint (bp_batch p))"
  using s32_nonneg(1) [of "bp_batch p"] unfolding bench_param_ok_def by (metis nat_int)

lemma worker_step_rank:
  assumes "bench_param_ok p" and "worker_ok p w" and "in_device (bench_nblocks (bp_size p)) (bt_slba t)"
    and "worker_step p True a t w = Some (t', w', es)"
  shows "worker_rank (nat (sint (bp_batch p))) (wk_pc w') < worker_rank (nat (sint (bp_batch p))) (wk_pc w)"
proof -
  have "worker_ok p w'" using worker_step_ok [OF assms] by blast
  then have nf: "wk_pc w' \<noteq> WFault f" for f by (auto simp: worker_ok_def)
  show ?thesis
    using assms(2,4) nf batch_nat [OF assms(1)]
    by (cases "wk_pc w")
      (auto simp: worker_step_def goto_def worker_ok_def Let_def split: if_splits option.splits)
qed

lemma report_step_rank:
  assumes "report_step p True a th r = Some (r', es)" and "report_ok p r"
  shows "report_rank (nat (sint (bp_ncpus p))) (rp_pc r') < report_rank (nat (sint (bp_ncpus p))) (rp_pc r)"
  using assms by (cases "rp_pc r") (auto simp: report_step_def report_ok_def split: if_splits)

lemma sum_list_update_less:
  fixes f :: "'a \<Rightarrow> nat"
  assumes "i < length xs" and "f x < f (xs ! i)"
  shows "sum_list (map f (xs[i := x])) < sum_list (map f xs)"
  using assms by (induction xs arbitrary: i) (auto split: nat.splits)

lemma bench_step_rank:
  assumes "bench_param_ok p" and "bench_ok p S" and "bs_signal S" and "bench_step p S es S'"
  shows "bs_signal S' \<and> bench_rank p S' < bench_rank p S"
  using assms(4)
proof (rule bench_stepE, goal_cases)
  case 1
  then show ?case
    using assms(2,3) by (cases "bs_main S") (auto simp: main_goto_def bench_rank_def bench_ok_def main_ok_def split: if_splits)
next
  case (2 i a t w es')
  have "worker_ok p (bs_workers S ! i)" "in_device (bench_nblocks (bp_size p)) (bt_slba (bs_th S ! i))"
    using assms(2) 2(3) by (simp_all add: bench_ok_def)
  from worker_step_rank [OF assms(1) this] 2(4) assms(3)
  have "worker_rank (nat (sint (bp_batch p))) (wk_pc w) <
      worker_rank (nat (sint (bp_batch p))) (wk_pc (bs_workers S ! i))" by simp
  from sum_list_update_less [where f = "\<lambda>w. worker_rank (nat (sint (bp_batch p))) (wk_pc w)", OF 2(3) this]
  show ?case using assms(3) by (simp add: bench_rank_def 2(2))
next
  case (3 r a r' es')
  have "report_ok p r" using assms(2) 3(3) by (simp add: bench_ok_def)
  then have "report_rank (nat (sint (bp_ncpus p))) (rp_pc r') < report_rank (nat (sint (bp_ncpus p))) (rp_pc r)"
    using report_step_rank 3(4) assms(3) by simp
  then show ?case using assms(3) by (simp add: bench_rank_def 3(2,3))
qed

text \<open>A thread that has not ended can always make a step.\<close>

lemma worker_progress: "wk_pc w \<noteq> WEnd \<Longrightarrow> worker_ok p w \<Longrightarrow> \<exists>t' w' es. worker_step p sig a t w = Some (t', w', es)"
  by (cases "wk_pc w") (auto simp: worker_step_def goto_def worker_ok_def Let_def split: option.splits)

lemma report_progress: "rp_pc r \<noteq> RDone \<Longrightarrow> report_ok p r \<Longrightarrow> \<exists>r' es. report_step p sig a th r = Some (r', es)"
  by (cases "rp_pc r") (auto simp: report_step_def report_ok_def)

lemma bench_progress:
  assumes "bench_ok p S" and "bs_main S \<noteq> MDone"
  shows "\<exists>es S'. bench_step p S es S'"
proof (cases "main_at p S (bs_main S)")
  case (Some x)
  then show ?thesis by (cases x) (blast intro: bench_step.main)
next
  case None
  then show ?thesis
  proof (cases "bs_main S")
    case (MJoin n)
    with None have n: "int n < sint (bp_ncpus p)" "wk_pc (bs_workers S ! n) \<noteq> WEnd"
      by (auto simp: main_goto_def split: if_splits)
    have len: "n < length (bs_workers S)" using n(1) MJoin assms(1) by (simp add: bench_ok_def main_ok_def)
    then have "worker_ok p (bs_workers S ! n)" using assms(1) by (simp add: bench_ok_def)
    with worker_progress [OF n(2)] len show ?thesis by (blast intro: bench_step.worker)
  next
    case MJoinReport
    with None assms(1) obtain r where "bs_report S = Some r" "rp_pc r \<noteq> RDone" "report_ok p r"
      by (auto simp: main_goto_def bench_ok_def main_ok_def split: if_splits)
    with report_progress show ?thesis by (blast intro: bench_step.report)
  qed (use None assms in \<open>auto simp: main_goto_def bench_ok_def main_ok_def split: if_splits\<close>)
qed

text \<open>What \<open>main\<close> has waited for.\<close>

definition joined :: "bench_state \<Rightarrow> bool" where
  "joined S \<longleftrightarrow> (case bs_main S of
     MJoin n \<Rightarrow> \<forall>i < n. i < length (bs_workers S) \<longrightarrow> wk_pc (bs_workers S ! i) = WEnd
   | MJoinReport \<Rightarrow> \<forall>w \<in> set (bs_workers S). wk_pc w = WEnd
   | MClose \<Rightarrow> (\<forall>w \<in> set (bs_workers S). wk_pc w = WEnd) \<and> map_option rp_pc (bs_report S) = Some RDone
   | MPrint n \<Rightarrow> (\<forall>w \<in> set (bs_workers S). wk_pc w = WEnd) \<and> map_option rp_pc (bs_report S) = Some RDone
   | MDone \<Rightarrow> (\<forall>w \<in> set (bs_workers S). wk_pc w = WEnd) \<and> map_option rp_pc (bs_report S) = Some RDone
   | _ \<Rightarrow> True)"

lemma joined_mono:
  assumes "joined S" and "bs_main S' = bs_main S" and "length (bs_workers S') = length (bs_workers S)"
    and "\<And>i. i < length (bs_workers S) \<Longrightarrow> wk_pc (bs_workers S ! i) = WEnd \<Longrightarrow> wk_pc (bs_workers S' ! i) = WEnd"
    and "map_option rp_pc (bs_report S) = Some RDone \<Longrightarrow> map_option rp_pc (bs_report S') = Some RDone"
  shows "joined S'"
proof -
  have "\<forall>w \<in> set (bs_workers S'). wk_pc w = WEnd" if "\<forall>w \<in> set (bs_workers S). wk_pc w = WEnd"
    using that assms(3,4) by (metis in_set_conv_nth)
  note all = this
  show ?thesis
  proof (cases "bs_main S")
    case (MJoin n)
    then show ?thesis using assms(1-4) by (simp add: joined_def)
  next
    case MClose
    then show ?thesis using assms(1,2,5) all by (simp add: joined_def)
  next
    case (MPrint n)
    then show ?thesis using assms(1,2,5) all by (simp add: joined_def)
  next
    case MDone
    then show ?thesis using assms(1,2,5) all by (simp add: joined_def)
  qed (use assms(1,2) all in \<open>simp_all add: joined_def\<close>)
qed

lemma bench_step_joined:
  assumes "bench_ok p S" and "joined S" and "bench_step p S es S'"
  shows "joined S'"
  using assms(3)
proof (rule bench_stepE, goal_cases)
  case 1
  show ?case
  proof (cases "bs_main S")
    case (MJoin n)
    have len: "int (length (bs_workers S)) = sint (bp_ncpus p)"
      using assms(1) MJoin by (simp add: bench_ok_def main_ok_def)
    have before: "\<forall>i < n. i < length (bs_workers S) \<longrightarrow> wk_pc (bs_workers S ! i) = WEnd"
      using assms(2) MJoin by (simp add: joined_def)
    show ?thesis
    proof (cases "int n < sint (bp_ncpus p)")
      case True
      then show ?thesis
        using 1(2) MJoin before by (auto simp: main_goto_def joined_def less_Suc_eq split: if_splits)
    next
      case False
      then have "\<forall>i < length (bs_workers S). wk_pc (bs_workers S ! i) = WEnd"
        using before len by simp
      then have "\<forall>w \<in> set (bs_workers S). wk_pc w = WEnd" by (metis in_set_conv_nth)
      then show ?thesis using 1(2) MJoin False by (auto simp: main_goto_def joined_def)
    qed
  next
    case MJoinReport
    then show ?thesis using 1(2) assms(2) by (auto simp: main_goto_def joined_def split: if_splits)
  next
    case MClose
    then show ?thesis using 1(2) assms(2) by (auto simp: joined_def)
  next
    case (MPrint n)
    then show ?thesis using 1(2) assms(2) by (auto simp: main_goto_def joined_def split: if_splits)
  qed (use 1(2) in \<open>auto simp: main_goto_def joined_def split: if_splits\<close>)
next
  case (2 i a t w es')
  show ?case
  proof (rule joined_mono [OF assms(2)])
    fix j assume "j < length (bs_workers S)" "wk_pc (bs_workers S ! j) = WEnd"
    with 2(4) show "wk_pc (bs_workers S' ! j) = WEnd"
      by (cases "j = i") (auto simp: 2(2) worker_step_def)
  qed (simp_all add: 2(2))
next
  case (3 r a r' es')
  show ?case
    by (rule joined_mono [OF assms(2)]) (use 3 in \<open>auto simp: report_step_def\<close>)
qed

lemma bench_run_joined:
  assumes "bench_param_ok p" and "bench_run p tr S"
  shows "joined S"
  using assms(2)
proof (induction rule: bench_run.induct)
  case init
  then show ?case by (simp add: joined_def bench_init_def)
next
  case (step tr S es S')
  then show ?case using bench_run_ok [OF assms(1) step.hyps(1)] bench_step_joined by blast
qed

text \<open>
  C14. The benchmark ends: once \<open>main\<close> has set \<open>caught_signal\<close>, every step of any thread, in any
  order and with any answers of the device, brings the program closer to its end (\<open>bench_rank\<close>
  decreases), so only finitely many follow; and it does not get stuck before: a state without a
  further step is one in which all threads have ended and \<open>main\<close> has waited for them.
\<close>

theorem bench_ends_after_signal:
  assumes "bench_param_ok p" and "bench_run p tr S" and "bs_signal S"
  shows "(\<forall>es S'. bench_step p S es S' \<longrightarrow> bs_signal S' \<and> bench_rank p S' < bench_rank p S) \<and>
    ((\<nexists>es S'. bench_step p S es S') \<longrightarrow> bs_main S = MDone \<and>
      (\<forall>w \<in> set (bs_workers S). wk_pc w = WEnd) \<and> map_option rp_pc (bs_report S) = Some RDone)"
proof -
  have ok: "bench_ok p S" using bench_run_ok [OF assms(1,2)] by blast
  have "bs_main S = MDone" if "\<nexists>es S'. bench_step p S es S'"
    using bench_progress [OF ok] that by blast
  with bench_run_joined [OF assms(1,2)] bench_step_rank [OF assms(1) ok assms(3)] show ?thesis
    by (auto simp: joined_def)
qed

definition demo_signalled :: "(label list \<times> bench_state) option" where
  "demo_signalled = bench_exec bench_param_init (replicate 5 Main) ([], bench_init)"

lemma demo_signalled_value:
  "map_option (\<lambda>(tr, S). (tr, bs_signal S, bench_rank bench_param_init S)) demo_signalled =
     Some ([FromMain (Open None)], True, 11)"
  by code_simp

theorem bench_ends_after_signal_witness:
  "\<exists>S. bench_run bench_param_init [FromMain (Open None)] S \<and> bench_rank bench_param_init S = 11 \<and>
     (\<forall>es S'. bench_step bench_param_init S es S' \<longrightarrow> bench_rank bench_param_init S' < 11)"
proof -
  obtain S where res: "demo_signalled = Some ([FromMain (Open None)], S)" "bs_signal S"
    "bench_rank bench_param_init S = 11"
    using demo_signalled_value by auto
  then have run: "bench_run bench_param_init [FromMain (Open None)] S"
    unfolding demo_signalled_def by (blast intro: bench_exec_run bench_run.init)
  from bench_ends_after_signal [OF demo_param_ok run res(2)] run res(3) show ?thesis by auto
qed

subsection \<open>More CPUs than entries\<close>

text \<open>
  With more than 32 CPUs, which the options accept on a machine that has them, \<open>main\<close> writes behind
  the array of threads.
\<close>

lemma bench_overruns_threads:
  assumes "int MAX_CPU_NUM < sint (bp_ncpus p)" and "bs_main S = MSpawn MAX_CPU_NUM"
  shows "bench_step p S [] (S\<lparr>bs_main := MFault OutOfBounds\<rparr>)"
  using assms bench_step.main [of p S _ "[]"] by (simp add: main_goto_def)

end
