(* ===== verification/Bench_Output.thy ===== *)
theory Bench_Output
  imports C_Double Bench_Progress Hexdump
begin

section \<open>bench-nvme: what is printed\<close>

text \<open>
  The text bench-nvme writes: the configuration (\<open>print_p\<close>) and the complaints about the command line,
  the results of a thread (\<open>print_result\<close>) and of an interval (\<open>print_interval_result\<close>), which are computed
  with doubles (\<open>C_Double\<close>). The properties: how far a printed rate can be from the exact one, and that the
  final results are those of all completed requests, printed after the device has been closed once.
\<close>

definition line :: "string \<Rightarrow> string" where
  "line s = s @ newline"

subsection \<open>Rates\<close>

text \<open>
  The four numbers of a result: requests per second, the same in thousands, bytes per second, and units of 2^20
  bytes per second, from a number of requests, a number of bytes and the microseconds they took.
\<close>

definition rates :: "u64 \<Rightarrow> u64 \<Rightarrow> double \<Rightarrow> double list" where
  "rates count bytes elapsed =
     (let c = double_of_u64 count; b = double_of_u64 bytes in
      [double_mul (double_div c elapsed) (Fin 1000000),
       double_div (double_mul (double_div c elapsed) (Fin 1000000)) (Fin 1000),
       double_mul (double_div b elapsed) (Fin 1000000),
       double_div (double_mul (double_div b elapsed) (Fin 1000000)) (Fin (1024 * 1024))])"

definition rates_text :: "string list \<Rightarrow> string" where
  "rates_text rs = rs ! 0 @ '' iops, '' @ rs ! 1 @ '' kiops, '' @ rs ! 2 @ '' Bps, '' @ rs ! 3 @ '' MBps'' @ newline"

text \<open>None where the subtraction of the times overflows.\<close>

definition print_result :: "bench_thread \<Rightarrow> string option" where
  "print_result th = map_option (\<lambda>usec.
     ''[FINAL] qid '' @ show_int (sint (bt_cpu th)) @ '' '' @
       rates_text (map show_2lf (rates (bt_count th) (bt_bytes th) (double_of_u64 usec))))
     (get_usec_elapsed (bt_start th) (bt_end th))"

text \<open>The text of an interval; the differences and the time are computed by the reporter (\<open>report_at\<close>).\<close>

fun interim_text :: "io_event \<Rightarrow> string option" where
  "interim_text (Interim count bytes usec) = map_option (\<lambda>u.
     ''[INTERIM] '' @ rates_text (map show_2lf (rates count bytes (double_of_u64 u)))) usec"
| "interim_text e = Some ''''"

subsection \<open>The configuration and the command line\<close>

definition walk_str :: "walk \<Rightarrow> string" where
  "walk_str w = (case w of WALK_RANDOM \<Rightarrow> ''random'' | WALK_SEQ \<Rightarrow> ''seq'' | WALK_SAME \<Rightarrow> ''same'')"

text \<open>
  \<open>main\<close> prints the configuration before it looks whether there is a device, so \<open>%s\<close> may get a null pointer,
  which C leaves undefined; \<open>null\<close> is what the C library prints then (the GNU one \<open>(null)\<close>).
\<close>

definition print_p :: "string \<Rightarrow> bench_param \<Rightarrow> string" where
  "print_p null p =
     line ''==== Benchmark Configuration ===='' @
     line (''mode:       '' @ (if bp_mode p = NVME_CMD_READ then ''read'' else ''write'')) @
     line (''walk:       '' @ walk_str (bp_walk p)) @
     line (''size:       '' @ show_int (sint (bp_size p))) @
     line (''batch:      '' @ show_int (sint (bp_batch p))) @
     line (''device:     '' @ (case bp_pci p of None \<Rightarrow> null | Some d \<Rightarrow> d)) @
     line (''ncpus:      '' @ show_int (sint (bp_ncpus p))) @
     line (''time:       '' @ show_int (sint (bp_time p))) @
     line ''=================================''"

definition bench_usage :: string where
  "bench_usage = line ''usage:'' @
     line ''    -m: mode, read or write'' @
     line ''    -w: walk mode, random, seq, or same'' @
     line ''    -s: message size (power of 512-byte)'' @
     line ''    -b: batch size'' @
     line ''    -n: number of cpus to be used'' @
     line ''    -t: benchmark time (sec)'' @
     line ''    -p: PCI num of target nvme device''"

text \<open>
  What the handling of an option prints. A negative time is complained about and used all the same.
\<close>

definition bench_option_text :: "nat list option \<Rightarrow> char \<times> string \<Rightarrow> bench_param \<times> nat \<Rightarrow> string" where
  "bench_option_text affinity oa pv = (case oa of (ch, optarg) \<Rightarrow>
     if ch = CHR ''t'' then (if sint (atoi optarg) < 0 then line (''invalid time: '' @ optarg) else [])
     else if bench_option affinity oa pv \<noteq> None then []
     else if ch = CHR ''m'' then line (''invalid mode: '' @ optarg) @ bench_usage
     else if ch = CHR ''w'' then line (''invalid walk mode: '' @ optarg) @ bench_usage
     else if ch = CHR ''s'' then line (''invalid size: '' @ optarg)
     else if ch = CHR ''b'' then line (''invalid batch size: '' @ optarg)
     else if ch = CHR ''n'' then line (''invalid cpu number: '' @ optarg)
     else bench_usage)"

fun bench_options_text ::
  "nat list option \<Rightarrow> (char \<times> string) list \<Rightarrow> bench_param \<times> nat \<Rightarrow> string" where
  "bench_options_text affinity [] pv = []"
| "bench_options_text affinity (oa # oas) pv = bench_option_text affinity oa pv @
     (case bench_option affinity oa pv of None \<Rightarrow> [] | Some pv' \<Rightarrow> bench_options_text affinity oas pv')"

definition bench_setup_text :: "nat list option \<Rightarrow> string \<Rightarrow> string list \<Rightarrow> string" where
  "bench_setup_text affinity null argv =
     (let oas = getopt_args bench_optstring argv in
      bench_options_text affinity oas (bench_param_init, 0) @
      (case bench_options affinity oas (bench_param_init, 0) of
         None \<Rightarrow> []
       | Some (p, v) \<Rightarrow> print_p null p @
           (if bp_pci p = None then line ''-p pci device must be specified'' else [])))"

definition main_text :: "bench_param \<Rightarrow> main_event \<Rightarrow> string option" where
  "main_text p e = (case e of
     Open d \<Rightarrow> Some (line ''start benchmarking'')
   | Close \<Rightarrow> Some (line (''close nvme '' @ (case bp_pci p of None \<Rightarrow> [] | Some d \<Rightarrow> d)))
   | Final th \<Rightarrow> print_result th)"

subsection \<open>How exact the printed rates are\<close>

lemma show_2lf_close:
  assumes "rounded 4 y x"
  shows "\<exists>n. show_2lf (Fin x) = show_hundredths n \<and> \<bar>of_nat n / 100 - y\<bar> \<le> 1 / 200 + y / 2 ^ 50"
proof (intro exI conjI)
  let ?r = "round_even (100 * x)"
  show "show_2lf (Fin x) = show_hundredths (nat ?r)" by simp
  have "0 \<le> ?r" using rounded_nonneg [OF assms] by (intro round_even_nonneg) simp
  then have "of_nat (nat ?r) = (of_int ?r :: rat)" by simp
  then have "\<bar>of_nat (nat ?r) - 100 * x\<bar> \<le> 1 / 2" using round_even_error [of "100 * x"] by simp
  moreover have "\<bar>x - y\<bar> \<le> y / 2 ^ 50" by (rule rounded_4 [OF assms])
  ultimately show "\<bar>of_nat (nat ?r) / 100 - y\<bar> \<le> 1 / 200 + y / 2 ^ 50"
    by (simp only: abs_le_iff) linarith
qed

lemma double_of_u64_exact: "unat w < 2 ^ 53 \<Longrightarrow> double_of_u64 w = Fin (of_nat (unat w))"
  by (simp only: double_of_u64_def round_double_exact)

text \<open>The exact values of \<open>rates\<close>.\<close>

definition exact_rates :: "nat \<Rightarrow> nat \<Rightarrow> nat \<Rightarrow> rat list" where
  "exact_rates count bytes usec =
     (let seconds = of_nat usec / 1000000 in
      [of_nat count / seconds, of_nat count / seconds / 1000,
       of_nat bytes / seconds, of_nat bytes / seconds / (1024 * 1024)])"

lemma rate_rounded:
  assumes "0 < u" and "unat w < 2 ^ 53" and "unat u < 2 ^ 53"
  shows "\<exists>x. double_mul (double_div (double_of_u64 w) (double_of_u64 u)) (Fin 1000000) = Fin x \<and>
    rounded 2 (of_nat (unat w) / (of_nat (unat u) / 1000000)) x"
proof -
  let ?y = "of_nat (unat w) / of_nat (unat u) :: rat"
  have u0: "unat u \<noteq> 0" using assms(1) by (simp add: unat_gt_0 [symmetric] word_gt_0)
  then have u: "(of_nat (unat u) :: rat) \<noteq> 0" by (simp only: of_nat_eq_0_iff not_False_eq_True)
  have "rounded 0 ?y ?y" by (intro rounded_refl divide_nonneg_nonneg of_nat_0_le_iff)
  from rounded_round [OF this] have "rounded 1 ?y (round_double ?y)" by simp
  from rounded_round [OF rounded_mult [OF this, of 1000000]]
  have "rounded 2 (?y * 1000000) (round_double (round_double ?y * 1000000))" by (simp add: numeral_2_eq_2)
  then show ?thesis
    by (simp add: double_of_u64_exact [OF assms(2)] double_of_u64_exact [OF assms(3)] u u0 del: of_nat_unat)
qed

lemma rates_rounded:
  assumes "0 < u" and "unat c < 2 ^ 53" and "unat b < 2 ^ 53" and "unat u < 2 ^ 53"
  shows "\<exists>xs. rates c b (double_of_u64 u) = map Fin xs \<and>
    list_all2 (rounded 4) (exact_rates (unat c) (unat b) (unat u)) xs"
proof -
  obtain x where x: "double_mul (double_div (double_of_u64 c) (double_of_u64 u)) (Fin 1000000) = Fin x"
    "rounded 2 (of_nat (unat c) / (of_nat (unat u) / 1000000)) x"
    using rate_rounded [OF assms(1,2,4)] by blast
  obtain z where z: "double_mul (double_div (double_of_u64 b) (double_of_u64 u)) (Fin 1000000) = Fin z"
    "rounded 2 (of_nat (unat b) / (of_nat (unat u) / 1000000)) z"
    using rate_rounded [OF assms(1,3,4)] by blast
  have more: "rounded 4 y v" "0 < k \<Longrightarrow> rounded 4 (y / k) (round_double (v / k))" if "rounded 2 y v" for y v k
    using that rounded_round [OF rounded_div [OF that, of k]]
    by (simp_all add: rounded_Suc eval_nat_numeral)
  have "rates c b (double_of_u64 u) = map Fin [x, round_double (x / 1000), z, round_double (z / (1024 * 1024))]"
    by (simp add: rates_def Let_def x(1) z(1))
  moreover have "list_all2 (rounded 4) (exact_rates (unat c) (unat b) (unat u))
      [x, round_double (x / 1000), z, round_double (z / (1024 * 1024))]"
    unfolding exact_rates_def Let_def list_all2_Cons list_all2_Nil
    by (intro conjI more x(2) z(2)) simp_all
  ultimately show ?thesis by blast
qed

text \<open>
  C23. The results a thread's line shows: with times in order that are not equal and with counters and microseconds below
  2^53 (285 years), each of the four printed numbers, which is a number of hundredths, differs from the exact
  rate by at most half a hundredth and a part in 2^50 of the rate, although it is computed in up to
  four roundings of doubles.
\<close>

theorem print_result_accurate:
  assumes "get_usec_elapsed (bt_start th) (bt_end th) = Some u" and "0 < u" and "unat u < 2 ^ 53"
    and "unat (bt_count th) < 2 ^ 53" and "unat (bt_bytes th) < 2 ^ 53"
  shows "\<exists>ns. print_result th = Some (''[FINAL] qid '' @ show_int (sint (bt_cpu th)) @ '' '' @
      rates_text (map show_hundredths ns)) \<and>
    list_all2 (\<lambda>n y. \<bar>of_nat n / 100 - y\<bar> \<le> 1 / 200 + y / 2 ^ 50) ns
      (exact_rates (unat (bt_count th)) (unat (bt_bytes th)) (unat u))"
proof -
  obtain xs where xs: "rates (bt_count th) (bt_bytes th) (double_of_u64 u) = map Fin xs"
    "list_all2 (rounded 4) (exact_rates (unat (bt_count th)) (unat (bt_bytes th)) (unat u)) xs"
    using rates_rounded [OF assms(2,4,5,3)] by blast
  have "\<exists>ns. map show_2lf (map Fin xs) = map show_hundredths ns \<and>
      list_all2 (\<lambda>n y. \<bar>of_nat n / 100 - y\<bar> \<le> 1 / 200 + y / 2 ^ 50) ns ys"
    if "list_all2 (rounded 4) ys xs" for ys
    using that
  proof (induction rule: list_all2_induct)
    case (Cons y ys x xs)
    then obtain ns where "map show_2lf (map Fin xs) = map show_hundredths ns"
      "list_all2 (\<lambda>n y. \<bar>of_nat n / 100 - y\<bar> \<le> 1 / 200 + y / 2 ^ 50) ns ys" by blast
    moreover obtain n where "show_2lf (Fin x) = show_hundredths n" "\<bar>of_nat n / 100 - y\<bar> \<le> 1 / 200 + y / 2 ^ 50"
      using show_2lf_close [OF Cons(1)] by blast
    ultimately show ?case by (intro exI [of _ "n # ns"]) simp
  qed simp
  from this [OF xs(2)] show ?thesis by (auto simp: print_result_def assms(1) xs(1))
qed

definition demo_thread :: bench_thread where
  "demo_thread = \<lparr>bt_slba = 0, bt_cpu = 3, bt_count = 1265923, bt_bytes = 648152576,
     bt_start = Timeval 100 999999, bt_end = Timeval 131 11\<rparr>"

lemma demo_rates:
  "map show_2lf (rates 1265923 648152576 (double_of_u64 30000012)) = [''42197.42'', ''42.20'', ''21605077.22'', ''20.60'']"
proof -
  have d: "double_of_u64 1265923 = Fin 1265923" "double_of_u64 648152576 = Fin 648152576"
    "double_of_u64 30000012 = Fin 30000012"
    by (simp_all add: double_of_u64_exact)
  have r: "rates 1265923 648152576 (double_of_u64 30000012) = map Fin [362473047294395 / 2 ^ 33, 742344800858921 / 2 ^ 44,
      362473047294395 / 2 ^ 24, 362473047294395 / 2 ^ 44]"
    unfolding rates_def Let_def d by code_simp
  have n: "round_even (100 * (362473047294395 / 2 ^ 33)) = 4219742"
    "round_even (100 * (742344800858921 / 2 ^ 44)) = 4220"
    "round_even (100 * (362473047294395 / 2 ^ 24)) = 2160507722"
    "round_even (100 * (362473047294395 / 2 ^ 44)) = 2060"
    by code_simp+
  have "map (\<lambda>n. show_hundredths (nat n)) [4219742, 4220, 2160507722, 2060] = [''42197.42'', ''42.20'', ''21605077.22'', ''20.60'']"
    by (simp add: show_hundredths_def show_nat.simps digit_char_def) code_simp
  then show ?thesis unfolding r list.map show_2lf.simps n .
qed

lemma demo_thread_usec: "get_usec_elapsed (Timeval 100 999999) (Timeval 131 11) = Some 30000012"
  by code_simp

lemma show_int_3: "show_int 3 = ''3''"
  by code_simp

lemma demo_thread_text:
  "print_result demo_thread =
     Some (''[FINAL] qid 3 42197.42 iops, 42.20 kiops, 21605077.22 Bps, 20.60 MBps'' @ newline)"
  by (simp add: print_result_def demo_thread_def demo_thread_usec demo_rates show_int_3 rates_text_def del: list.map)

theorem print_result_accurate_witness:
  "\<exists>ns. print_result demo_thread = Some (''[FINAL] qid 3 '' @ rates_text (map show_hundredths ns)) \<and>
     list_all2 (\<lambda>n y. \<bar>of_nat n / 100 - y\<bar> \<le> 1 / 200 + y / 2 ^ 50) ns (exact_rates 1265923 648152576 30000012)"
  using print_result_accurate [of demo_thread 30000012] demo_thread_usec
  by (simp add: demo_thread_def show_int_3)

text \<open>Without any time between them the results are infinities, or NaNs where nothing was done.\<close>

lemma rates_no_time:
  "rates c b (double_of_u64 0) =
     (let r = (\<lambda>w. if round_double (of_nat (unat w)) = 0 then Nan else Inf) in [r c, r c, r b, r b])"
  by (simp add: rates_def double_of_u64_def round_double_def [of 0] Let_def)

subsection \<open>The final results\<close>

text \<open>
  The order of the calls of \<open>main\<close>: how far the trace has got at each of its points. Once the device is
  closed only \<open>main\<close> makes steps, so the entries it prints do not change any more.
\<close>

definition bench_cpus :: "bench_param \<Rightarrow> nat" where
  "bench_cpus p = nat (sint (bp_ncpus p))"

fun from_main :: "label \<Rightarrow> bool" where
  "from_main (FromMain e) \<longleftrightarrow> True"
| "from_main l \<longleftrightarrow> False"

lemma not_from_main [simp]: "\<not> list_ex from_main (map (FromWorker i) es)" "\<not> list_ex from_main (map FromReport es)"
  by (simp_all add: list_ex_iff)

definition trace_upto :: "bench_param \<Rightarrow> label list \<Rightarrow> main_event list \<Rightarrow> bool" where
  "trace_upto p tr es \<longleftrightarrow> (\<exists>io. tr = FromMain (Open (bp_pci p)) # io @ map FromMain es \<and> \<not> list_ex from_main io)"

definition closing :: "bench_param \<Rightarrow> label list \<Rightarrow> bench_state \<Rightarrow> bool" where
  "closing p tr S \<longleftrightarrow> (case bs_main S of
     MOpen \<Rightarrow> tr = []
   | MPrint n \<Rightarrow> n \<le> bench_cpus p \<and> trace_upto p tr (Close # map Final (take n (bs_th S)))
   | MDone \<Rightarrow> trace_upto p tr (Close # map Final (take (bench_cpus p) (bs_th S)))
   | _ \<Rightarrow> trace_upto p tr [])"

lemma trace_upto_main: "trace_upto p tr es \<Longrightarrow> trace_upto p (tr @ map FromMain es') (es @ es')"
  by (auto simp: trace_upto_def)

lemma trace_upto_io: "trace_upto p tr [] \<Longrightarrow> \<not> list_ex from_main io \<Longrightarrow> trace_upto p (tr @ io) []"
  unfolding trace_upto_def by auto

lemma main_step_closing:
  assumes "bench_param_ok p" and "bench_ok p S" and "closing p tr S" and "main_at p S (bs_main S) = Some (S', es)"
  shows "closing p (tr @ map FromMain es) S'"
proof (cases "bs_main S")
  case MOpen
  then show ?thesis using assms(3,4) by (auto simp: closing_def trace_upto_def)
next
  case (MPrint n)
  have n: "n \<le> bench_cpus p" and t: "trace_upto p tr (Close # map Final (take n (bs_th S)))"
    using assms(3) MPrint by (simp_all add: closing_def)
  show ?thesis
  proof (cases "int n < sint (bp_ncpus p)")
    case True
    then have len: "n < length (bs_th S)" using assms(1,2) by (simp add: bench_ok_def bench_param_ok_def)
    then have "S' = S\<lparr>bs_main := MPrint (Suc n)\<rparr>" "es = [Final (bs_th S ! n)]"
      using assms(4) MPrint True by simp_all
    then show ?thesis
      using trace_upto_main [OF t, of es] True len
      by (simp add: closing_def take_Suc_conv_app_nth bench_cpus_def)
  next
    case False
    then have "n = bench_cpus p" using n by (simp add: bench_cpus_def)
    then show ?thesis using assms(4) MPrint False t by (auto simp: closing_def main_goto_def)
  qed
next
  case MClose
  then have "S' = S\<lparr>bs_main := MPrint 0\<rparr>" "es = [Close]" "trace_upto p tr []"
    using assms(3,4) by (simp_all add: closing_def)
  then show ?thesis using trace_upto_main [of p tr "[]" es] by (simp add: closing_def)
qed (use assms(3,4) in \<open>auto simp: closing_def main_goto_def split: if_splits\<close>)

text \<open>Another thread makes a step only while the device is open.\<close>

lemma io_step_closing:
  assumes "closing p tr S" and "bs_main S' = bs_main S" and "\<not> list_ex from_main io"
    and "\<forall>n. bs_main S \<noteq> MOpen \<and> bs_main S \<noteq> MPrint n \<and> bs_main S \<noteq> MDone"
  shows "closing p (tr @ io) S'"
  using assms by (cases "bs_main S") (simp_all add: closing_def trace_upto_io)

lemma bench_step_closing:
  assumes "bench_param_ok p" and "bench_ok p S" and "joined S" and "closing p tr S" and "bench_step p S es S'"
  shows "closing p (tr @ es) S'"
proof -
  have ended: "(\<forall>w \<in> set (bs_workers S). wk_pc w = WEnd) \<and>
      (\<forall>r. bs_report S = Some r \<longrightarrow> rp_pc r = RDone)"
    if "bs_main S = MOpen \<or> bs_main S = MPrint n \<or> bs_main S = MDone" for n
    using that assms(2,3) by (auto simp: joined_def bench_ok_def main_ok_def)
  from assms(5) show ?thesis
  proof (rule bench_stepE, goal_cases)
    case 1
    then show ?case using main_step_closing [OF assms(1,2,4)] by simp
  next
    case (2 i a t w es')
    have "wk_pc (bs_workers S ! i) \<noteq> WEnd" using 2(4) by (auto simp: worker_step_def)
    then have "\<forall>n. bs_main S \<noteq> MOpen \<and> bs_main S \<noteq> MPrint n \<and> bs_main S \<noteq> MDone"
      using ended 2(3) nth_mem by blast
    from io_step_closing [OF assms(4) _ _ this, of S' es] show ?case by (simp add: 2(1,2))
  next
    case (3 r a r' es')
    have "rp_pc r \<noteq> RDone" using 3(4) by (auto simp: report_step_def)
    then have "\<forall>n. bs_main S \<noteq> MOpen \<and> bs_main S \<noteq> MPrint n \<and> bs_main S \<noteq> MDone"
      using ended 3(3) by blast
    from io_step_closing [OF assms(4) _ _ this, of S' es] show ?case by (simp add: 3(1,2))
  qed
qed

lemma bench_run_closing:
  assumes "bench_param_ok p" and "bench_run p tr S"
  shows "closing p tr S"
  using assms(2)
proof (induction rule: bench_run.induct)
  case init
  then show ?case by (simp add: closing_def bench_init_def)
next
  case (step tr S es S')
  show ?case
    using bench_step_closing [OF assms(1) _ _ step.IH step.hyps(2)] step.hyps(1)
      bench_run_ok [OF assms(1)] bench_run_joined [OF assms(1)] by blast
qed

text \<open>
  C11. A run of the benchmark that has come to its end opened the device first and closed it once, after the last
  request and the last poll of any thread; after that it printed one result for each CPU, in their order, and each
  of them is about all the requests that thread has seen completed in the whole run, none missing and none still
  to be added, and about their bytes.
\<close>

theorem bench_final_results:
  assumes "bench_param_ok p" and "bench_run p tr S" and "bs_main S = MDone"
  shows "\<exists>io ths. tr = FromMain (Open (bp_pci p)) # io @ map FromMain (Close # map Final ths) \<and>
    (\<forall>e. FromMain e \<notin> set io) \<and> length ths = nat (sint (bp_ncpus p)) \<and>
    (\<forall>i < length ths. bt_cpu (ths ! i) = of_nat i \<and> bt_count (ths ! i) = of_nat (completions i tr) \<and>
      bt_bytes (ths ! i) = of_nat (completions i tr) * scast (bp_size p))"
proof -
  let ?ths = "take (bench_cpus p) (bs_th S)"
  have ok: "bench_ok p S" using bench_run_ok [OF assms(1,2)] by blast
  then have len: "length (bs_workers S) = bench_cpus p" "length (bs_th S) = MAX_CPU_NUM"
    using assms(3) by (auto simp: bench_ok_def main_ok_def bench_cpus_def)
  have le: "bench_cpus p \<le> MAX_CPU_NUM" using assms(1) by (simp add: bench_param_ok_def bench_cpus_def nat_le_iff)
  have ended: "\<forall>w \<in> set (bs_workers S). wk_pc w = WEnd"
    using bench_run_joined [OF assms(1,2)] assms(3) by (simp add: joined_def)
  have counts: "bt_cpu (bs_th S ! i) = of_nat i \<and> bt_count (bs_th S ! i) = of_nat (completions i tr) \<and>
      bt_bytes (bs_th S ! i) = of_nat (completions i tr) * scast (bp_size p)" if "i < bench_cpus p" for i
  proof -
    have "wk_pc (bs_workers S ! i) = WEnd" using ended that len(1) by simp
    then have "counting (bs_workers S ! i) = 0" by simp
    then show ?thesis using bench_run_counts [OF assms(1,2)] that len(1) by (auto simp: counts_ok_def)
  qed
  obtain io where "tr = FromMain (Open (bp_pci p)) # io @ map FromMain (Close # map Final ?ths)"
    "\<not> list_ex from_main io"
    using bench_run_closing [OF assms(1,2)] assms(3) by (auto simp: closing_def trace_upto_def)
  moreover from this(2) have "\<forall>e. FromMain e \<notin> set io" by (force simp: list_ex_iff)
  ultimately show ?thesis using counts len le by (intro exI [of _ io] exI [of _ ?ths]) (simp add: bench_cpus_def)
qed

text \<open>The run of before up to its end: the worker ends its batch, the reporter its interval.\<close>

definition demo_end :: "(label list \<times> bench_state) option" where
  "demo_end = bench_exec bench_param_init
     (demo_choices @ [Main] @ [Worker 0 demo_answer] @ [Report demo_answer] @ replicate 6 Main) ([], bench_init)"

lemma demo_end_value:
  "map_option (\<lambda>(tr, S). (length tr, drop 4 tr = [FromMain Close, FromMain (Final (bs_th S ! 0))],
     bs_main S, completions 0 tr, bt_bytes (bs_th S ! 0))) demo_end = Some (6, True, MDone, 1, 64)"
  by code_simp

theorem bench_final_results_witness:
  "\<exists>tr S th. bench_run bench_param_init tr S \<and> last tr = FromMain (Final th) \<and> completions 0 tr = 1 \<and>
     bt_count th = 1 \<and> bt_bytes th = 64"
proof -
  obtain tr S where res: "demo_end = Some (tr, S)" "bs_main S = MDone" "completions 0 tr = 1"
    using demo_end_value by auto
  then have run: "bench_run bench_param_init tr S"
    unfolding demo_end_def by (blast intro: bench_exec_run bench_run.init)
  from bench_final_results [OF demo_param_ok run res(2)] obtain io ths where
    tr: "tr = FromMain (Open None) # io @ map FromMain (Close # map Final ths)" and
    len: "length ths = 1" and
    vals: "\<forall>i < length ths. bt_cpu (ths ! i) = of_nat i \<and> bt_count (ths ! i) = of_nat (completions i tr) \<and>
      bt_bytes (ths ! i) = of_nat (completions i tr) * scast (bp_size bench_param_init)"
    by (auto simp: bench_param_init_def)
  from len obtain th where "ths = [th]" by (auto simp: length_Suc_conv)
  moreover from this vals res(3) have "bt_count th = 1" "bt_bytes th = 64"
    by (simp_all add: bench_param_init_def)
  ultimately show ?thesis using run tr res(3) by (intro exI [of _ tr] exI [of _ S] exI [of _ th]) simp
qed

subsection \<open>A refused command line\<close>

text \<open>The last message of a run that does not get to the threads.\<close>

definition complaint :: "(char \<times> string) list \<Rightarrow> string \<Rightarrow> bool" where
  "complaint oas msg \<longleftrightarrow> msg = bench_usage \<or> msg = line ''-p pci device must be specified'' \<or>
     (\<exists>(ch, arg) \<in> set oas. (ch = CHR ''s'' \<and> msg = line (''invalid size: '' @ arg)) \<or>
        (ch = CHR ''b'' \<and> msg = line (''invalid batch size: '' @ arg)) \<or>
        (ch = CHR ''n'' \<and> msg = line (''invalid cpu number: '' @ arg)))"

lemma complaint_Cons: "complaint oas msg \<Longrightarrow> complaint (oa # oas) msg"
  by (auto simp: complaint_def)

lemma bench_option_complaint:
  assumes "bench_option affinity oa pv = None"
  shows "\<exists>pre msg. bench_option_text affinity oa pv = pre @ msg \<and> complaint (oa # oas) msg"
proof -
  obtain ch arg where oa: "oa = (ch, arg)" by (rule prod.exhaust)
  have "ch \<noteq> CHR ''t''" using assms by (auto simp: oa bench_option_def split: prod.splits)
  with assms have says: "bench_option_text affinity oa pv =
     (if ch = CHR ''m'' then line (''invalid mode: '' @ arg) @ bench_usage
      else if ch = CHR ''w'' then line (''invalid walk mode: '' @ arg) @ bench_usage
      else if ch = CHR ''s'' then line (''invalid size: '' @ arg)
      else if ch = CHR ''b'' then line (''invalid batch size: '' @ arg)
      else if ch = CHR ''n'' then line (''invalid cpu number: '' @ arg)
      else bench_usage)"
    by (simp add: bench_option_text_def oa)
  have usage: ?thesis if "bench_option_text affinity oa pv = pre @ bench_usage" for pre
    using that unfolding complaint_def by blast
  have own: ?thesis if "bench_option_text affinity oa pv = msg" "complaint (oa # oas) msg" for msg
    using that by (intro exI [of _ "[]"] exI [of _ msg]) simp
  consider "ch = CHR ''m''" | "ch = CHR ''w''" | "ch \<in> {CHR ''s'', CHR ''b'', CHR ''n''}"
    | "ch \<notin> {CHR ''m'', CHR ''w'', CHR ''s'', CHR ''b'', CHR ''n''}" by blast
  then show ?thesis
  proof cases
    case 1
    then show ?thesis by (intro usage) (simp add: says)
  next
    case 2
    then show ?thesis by (intro usage) (simp add: says)
  next
    case 3
    then show ?thesis by (intro own [OF says]) (auto simp: complaint_def oa)
  next
    case 4
    then show ?thesis by (intro usage [of "[]"]) (simp add: says)
  qed
qed

lemma bench_options_complaint:
  assumes "bench_options affinity oas pv = None"
  shows "\<exists>pre msg. bench_options_text affinity oas pv = pre @ msg \<and> complaint oas msg"
  using assms
proof (induction affinity oas pv rule: bench_options.induct)
  case (2 affinity oa oas pv)
  show ?case
  proof (cases "bench_option affinity oa pv")
    case None
    then show ?thesis using bench_option_complaint by simp
  next
    case (Some pv')
    with 2 obtain pre msg where "bench_options_text affinity oas pv' = pre @ msg" "complaint oas msg" by auto
    then show ?thesis
      using Some complaint_Cons by (intro exI [of _ "bench_option_text affinity oa pv @ pre"] exI [of _ msg]) simp
  qed
qed simp



end
