(* ===== verification/Tool_Usage.thy ===== *)
theory Tool_Usage
  imports Bench_Output Load_Xmit Recv_Pram Xmit_Pram Unvme_Tools
begin

section \<open>What the tools say about their options\<close>

text \<open>
  The \<open>usage\<close> functions of the tools of userland-driver/tools (the one of bench-nvme.c is in \<open>Bench_Output\<close>), and
  a comparison of the options they document with the ones \<open>getopt\<close> accepts.
\<close>

definition tab :: string where
  "tab = [CHR 0x09]"

definition load_usage :: string where
  "load_usage = line ''usage:'' @
     line (''    -i NMNAME'' @ tab @ '' netmap port name to xmit packets'') @
     line (''    -s SLBA'' @ tab @ '' start logical address block'') @
     line (''    -n nblocks'' @ tab @ '' number of logical blocks read'') @
     ''    -p PCIbus    pci num of nvme in which packet storead'' @
     line ''    -c count     number of loop'' @
     line ''    -u usleep    usleep between tx packets'' @
     ''    -B batchsize batch size'' @
     newline"

definition xmit_usage :: string where
  "xmit_usage = line ''usage:'' @
     line (''    -i NMNAME'' @ tab @ '' netmap port name to xmit packets'') @
     line ''    -c count     number of loop'' @
     line ''    -n no write  no overrite on pram'' @
     line ''    -u usleep    usleep between tx packets'' @
     line ''    -l pktlen    packet length'' @
     newline"

definition recv_usage :: "string \<Rightarrow> string" where
  "recv_usage progname = line (''usage: '' @ progname) @
     line ''    -i netmap port'' @
     line ''    -n no p2pmem mode'' @
     newline"

definition dump_usage :: string where
  "dump_usage = line ''usage:'' @
     line ''    -p PCIbus'' @
     line ''    -s SLBA'' @
     line ''    -n Nblocks''"

text \<open>The letters after four blanks and a hyphen.\<close>

fun documented :: "string \<Rightarrow> string" where
  "documented (a # b # c # d # e # f # s) =
     (if [a, b, c, d, e] = ''    -'' then f # documented s else documented (b # c # d # e # f # s))"
| "documented s = []"

lemma documented_options:
  "documented load_usage = ''isnpcuB''" "documented xmit_usage = ''icnul''"
  "documented (recv_usage ''recv-to-pram'') = ''in''" "documented dump_usage = ''psn''"
  "documented bench_usage = ''mwsbntp''"
  by code_simp+

definition accepted :: "string \<Rightarrow> char set" where
  "accepted opts = {c. opt_lookup opts c \<noteq> None}"

lemma accepted_set: "accepted opts = set opts - {CHR '':''}"
proof -
  have "opt_lookup opts c \<noteq> None \<longleftrightarrow> c \<in> set opts \<and> c \<noteq> CHR '':''" for c
    by (induction opts c rule: opt_lookup.induct) auto
  then show ?thesis by (auto simp: accepted_def)
qed

lemma accepted_options:
  "accepted load_optstring = set ''isnpcub''" "accepted xmit_optstring = set ''iculnb''"
  "accepted recv_optstring = set ''in''" "accepted dump_optstring = set ''psn''"
  "accepted bench_optstring = set ''mwsbpntv''"
  unfolding accepted_set load_optstring_def xmit_optstring_def recv_optstring_def dump_optstring_def bench_optstring_def
  by (simp_all add: insert_commute insert_Diff_if)

text \<open>
  Usage and option strings agree for recv-to-pram and dump-nvme. load-and-xmit documents -B, which it
  does not accept, and not -b, which it does; xmit-from-pram does not document -b, bench-nvme not -v.
\<close>

theorem usage_documents_options:
  "set (documented (recv_usage ''recv-to-pram'')) = accepted recv_optstring \<and>
   set (documented dump_usage) = accepted dump_optstring \<and>
   accepted load_optstring - set (documented load_usage) = {CHR ''b''} \<and>
   set (documented load_usage) - accepted load_optstring = {CHR ''B''} \<and>
   set (documented xmit_usage) = accepted xmit_optstring - {CHR ''b''} \<and>
   set (documented bench_usage) = accepted bench_optstring - {CHR ''v''}"
  unfolding documented_options accepted_options by auto

end
