(* ===== verification/Concurrent_Calls.thy ===== *)
theory Concurrent_Calls
  imports Module_Life "HOL-Library.Multiset"
begin

section \<open>Calls of several processes at once\<close>

text \<open>
  The kernel runs the file operations of the module for several processes at the same time, without a lock. What
  the handlers share in nvpkt.c is the structure \<open>nvpkt\<close>, which only loading writes; all else is in local variables
  and in kernel objects. So an execution of concurrent calls is an interleaving of the traces the calls have alone,
  each for some kernel: what a kernel function answers to one process may depend on the others, which is one more way to
  answer. Only calls without a kernel oops are considered. The relation \<open>interleave\<close> goes one event at a time, from the traces still to come to the ones left over.
\<close>

definition call_trace :: "nvpkt \<Rightarrow> file_call \<Rightarrow> kevent list \<Rightarrow> bool" where
  "call_trace np call t \<longleftrightarrow> (\<exists>K h r. run_state (nvpkt_fops K np call) h = (Inr r, h @ t))"

inductive interleave :: "'e list list \<Rightarrow> (nat \<times> 'e) list \<Rightarrow> 'e list list \<Rightarrow> bool" where
  nothing: "interleave ts [] ts"
| event: "i < length ts \<Longrightarrow> ts ! i = e # t \<Longrightarrow> interleave (ts[i := t]) evs ts' \<Longrightarrow>
     interleave ts ((i, e) # evs) ts'"

inductive_cases interleave_NilE: "interleave ts [] ts'"

inductive_cases interleave_ConsE: "interleave ts (x # evs) ts'"

definition of_thread :: "nat \<Rightarrow> (nat \<times> 'e) list \<Rightarrow> 'e list" where
  "of_thread i evs = map snd (filter (\<lambda>x. fst x = i) evs)"

lemma of_thread_simps [simp]:
  "of_thread i [] = []" "of_thread i (x # evs) = (if fst x = i then [snd x] else []) @ of_thread i evs"
  by (simp_all add: of_thread_def)

lemma interleave_threads:
  assumes "interleave ts evs ts'"
  shows "length ts' = length ts \<and> (\<forall>x \<in> set evs. fst x < length ts) \<and>
    (\<forall>i < length ts. ts ! i = of_thread i evs @ ts' ! i)"
  using assms by (induction rule: interleave.induct) (auto simp: nth_list_update)

lemma interleave_thread:
  assumes "i < length ts" and "ts ! i = t @ u" and "interleave (ts[i := u]) evs ts'"
  shows "interleave ts (map (Pair i) t @ evs) ts'"
  using assms
proof (induction t arbitrary: ts)
  case Nil
  then show ?case by (metis append_Nil list.map(1) list_update_id)
next
  case (Cons e t)
  then show ?case by (auto intro!: interleave.event)
qed

subsection \<open>Collecting over the threads\<close>

lemma mset_of_threads:
  assumes "\<forall>x \<in> set evs. fst x < n"
  shows "mset (concat (map g (map snd evs))) = (\<Sum>i < n. mset (concat (map g (of_thread i evs))))"
  using assms
proof (induction evs)
  case (Cons x evs)
  have "(\<Sum>i < n. mset (concat (map g (of_thread i (x # evs))))) =
      (\<Sum>i < n. (if fst x = i then mset (g (snd x)) else {#}) + mset (concat (map g (of_thread i evs))))"
    by (intro sum.cong) simp_all
  also have "\<dots> = mset (g (snd x)) + (\<Sum>i < n. mset (concat (map g (of_thread i evs))))"
    using Cons.prems by (simp add: sum.distrib)
  finally show ?case using Cons by simp
qed simp

lemma reqs_Cons:
  "allocated_reqs (e # evs) = allocated_reqs [e] @ allocated_reqs evs"
  "freed_reqs (e # evs) = freed_reqs [e] @ freed_reqs evs"
  by (cases e; simp split: sum.split)+

lemma allocated_reqs_concat: "allocated_reqs evs = concat (map (\<lambda>e. allocated_reqs [e]) evs)"
  by (induction evs) (simp, subst reqs_Cons, simp only: list.map concat.simps)

lemma freed_reqs_concat: "freed_reqs evs = concat (map (\<lambda>e. freed_reqs [e]) evs)"
  by (induction evs) (simp, subst reqs_Cons, simp only: list.map concat.simps)

lemma mset_reqs_of_threads:
  assumes "\<forall>x \<in> set evs. fst x < n"
  shows "mset (allocated_reqs (map snd evs)) = (\<Sum>i < n. mset (allocated_reqs (of_thread i evs)))"
    and "mset (freed_reqs (map snd evs)) = (\<Sum>i < n. mset (freed_reqs (of_thread i evs)))"
  by (simp_all only: allocated_reqs_concat [of "map snd evs"] allocated_reqs_concat [of "of_thread _ evs"]
      freed_reqs_concat [of "map snd evs"] freed_reqs_concat [of "of_thread _ evs"] mset_of_threads [OF assms])

subsection \<open>The requests of concurrent calls\<close>

lemma call_trace_proto:
  assumes "call_trace np call (t @ u)"
  shows "\<exists>p. proto_run req_proto NoReq t = Some p \<and> (u = [] \<longrightarrow> p = NoReq)"
proof -
  obtain K h r where run: "run_state (nvpkt_fops K np call) h = (Inr r, h @ t @ u)"
    using assms by (auto simp: call_trace_def)
  from obeys_run [OF fops_obeys run] have "proto_run req_proto NoReq (t @ u) = Some NoReq" by auto
  then show ?thesis by (auto simp: proto_run_append split: option.splits)
qed

lemma size_held: "size (mset (held p)) \<le> 1"
  by (cases p) simp_all

lemma concurrent_threads:
  assumes "list_all2 (call_trace np) calls ts" and "interleave ts evs ts'"
  obtains p where "\<And>i. i < length calls \<Longrightarrow> proto_run req_proto NoReq (of_thread i evs) = Some (p i)"
    "\<And>i. i < length calls \<Longrightarrow> ts' ! i = [] \<Longrightarrow> p i = NoReq"
    "mset (allocated_reqs (map snd evs)) = mset (freed_reqs (map snd evs)) + (\<Sum>i < length calls. mset (held (p i)))"
proof -
  let ?n = "length calls"
  have len: "length ts = ?n" using assms(1) by (simp add: list_all2_lengthD)
  note split = interleave_threads [OF assms(2)]
  have "\<exists>p. proto_run req_proto NoReq (of_thread i evs) = Some p \<and> (ts' ! i = [] \<longrightarrow> p = NoReq)" if "i < ?n" for i
  proof -
    have "call_trace np (calls ! i) (of_thread i evs @ ts' ! i)"
      using assms(1) split that len by (metis list_all2_nthD)
    then show ?thesis by (rule call_trace_proto)
  qed
  then obtain p where p: "\<And>i. i < ?n \<Longrightarrow> proto_run req_proto NoReq (of_thread i evs) = Some (p i) \<and>
      (ts' ! i = [] \<longrightarrow> p i = NoReq)" by metis
  have "mset (allocated_reqs (of_thread i evs)) = mset (freed_reqs (of_thread i evs)) + mset (held (p i))" if "i < ?n" for i
    using req_proto_balance [of NoReq "of_thread i evs" "p i"] p [OF that] by simp
  then have "mset (allocated_reqs (map snd evs)) = mset (freed_reqs (map snd evs)) + (\<Sum>i < ?n. mset (held (p i)))"
    using split mset_reqs_of_threads [of evs ?n] by (simp add: len sum.distrib)
  with p show thesis by (blast intro: that)
qed

text \<open>
  C3. The module is safe to call from several processes at once, as far as its requests go: at any point of any
  interleaving of calls, every request freed had been allocated, there are at most as many requests outstanding as
  calls that have not returned, and each packet a process has sent was sent after that process's own read, with its
  request still held. Once all the calls have returned, all requests have been freed, each as often as it was allocated.
\<close>

theorem concurrent_calls_free_requests:
  assumes "list_all2 (call_trace np) calls ts" and "interleave ts evs ts'"
  shows "(\<forall>i < length calls. sent_after_read (of_thread i evs)) \<and>
    mset (freed_reqs (map snd evs)) \<subseteq># mset (allocated_reqs (map snd evs)) \<and>
    length (allocated_reqs (map snd evs)) \<le>
      length (freed_reqs (map snd evs)) + card {i. i < length calls \<and> ts' ! i \<noteq> []} \<and>
    ((\<forall>t \<in> set ts'. t = []) \<longrightarrow> mset (allocated_reqs (map snd evs)) = mset (freed_reqs (map snd evs)))"
proof -
  let ?n = "length calls"
  obtain p where p: "\<And>i. i < ?n \<Longrightarrow> proto_run req_proto NoReq (of_thread i evs) = Some (p i)"
    "\<And>i. i < ?n \<Longrightarrow> ts' ! i = [] \<Longrightarrow> p i = NoReq" and
    bal: "mset (allocated_reqs (map snd evs)) = mset (freed_reqs (map snd evs)) + (\<Sum>i < ?n. mset (held (p i)))"
    using concurrent_threads [OF assms] by blast
  have "(\<Sum>i < ?n. size (mset (held (p i)))) \<le> (\<Sum>i < ?n. if ts' ! i \<noteq> [] then 1 else 0)"
  proof (rule sum_mono)
    fix i assume "i \<in> {..< ?n}"
    then show "size (mset (held (p i))) \<le> (if ts' ! i \<noteq> [] then 1 else 0)"
      using p(2) [of i] size_held [of "p i"] by (cases "ts' ! i = []") auto
  qed
  also have "\<dots> = card {i. i < ?n \<and> ts' ! i \<noteq> []}"
    by (simp only: sum.If_cases [OF finite_lessThan] sum.neutral_const add_0_right card_eq_sum [symmetric])
      (rule arg_cong [where f = card], auto)
  finally have "size (\<Sum>i < ?n. mset (held (p i))) \<le> card {i. i < ?n \<and> ts' ! i \<noteq> []}" by simp
  moreover have "size (mset (allocated_reqs (map snd evs))) =
      size (mset (freed_reqs (map snd evs))) + size (\<Sum>i < ?n. mset (held (p i)))" by (simp only: bal size_union)
  ultimately have "length (allocated_reqs (map snd evs)) \<le>
      length (freed_reqs (map snd evs)) + card {i. i < ?n \<and> ts' ! i \<noteq> []}" by (simp only: size_mset)
  moreover have "(\<Sum>i < ?n. mset (held (p i))) = {#}" if "\<forall>t \<in> set ts'. t = []"
  proof -
    have "length ts' = ?n" using interleave_threads [OF assms(2)] assms(1) by (simp add: list_all2_lengthD)
    then show ?thesis using that p(2) by (auto intro!: sum.neutral)
  qed
  ultimately show ?thesis
    using p(1) req_proto_sent bal by auto
qed

theorem concurrent_calls_free_requests_witness:
  "\<exists>t evs ts'. list_all2 (call_trace demo_nvpkt)
       [CallIoctl NVPKT_IOCTL_TXPKT 0x1000, CallIoctl NVPKT_IOCTL_TXPKT 0x1000] [t, t] \<and>
     interleave [t, t] evs ts' \<and> allocated_reqs (map snd evs) = [0x40, 0x40] \<and>
     length (freed_reqs (map snd evs)) = 2"
proof -
  obtain t where t: "run_state (nvpkt_ioctl demo_kernel demo_nvpkt NVPKT_IOCTL_TXPKT 0x1000) [] = (Inr 0, [] @ t)"
    "allocated_reqs t = [0x40]"
    using demo_ioctl_txpkt by blast
  then have "call_trace demo_nvpkt (CallIoctl NVPKT_IOCTL_TXPKT 0x1000) t"
    unfolding call_trace_def nvpkt_fops.simps by blast
  then have calls: "list_all2 (call_trace demo_nvpkt)
      [CallIoctl NVPKT_IOCTL_TXPKT 0x1000, CallIoctl NVPKT_IOCTL_TXPKT 0x1000] [t, t]" by simp
  let ?evs = "map (Pair (1 :: nat)) t @ map (Pair 0) t"
  have run: "interleave [t, t] ?evs [[], []]"
    using interleave_thread [of 1 "[t, t]" t "[]" "map (Pair 0) t" "[[], []]"]
      interleave_thread [of 0 "[t, []]" t "[]" "[]" "[[], []]"]
    by (simp add: interleave.nothing)
  have "allocated_reqs (xs @ ys) = allocated_reqs xs @ allocated_reqs ys" for xs ys
    by (simp only: allocated_reqs_concat [of "xs @ ys"] allocated_reqs_concat [of xs] allocated_reqs_concat [of ys]
        map_append concat_append)
  then have all: "allocated_reqs (map snd ?evs) = [0x40, 0x40]" using t(2) by (simp add: comp_def)
  have "mset (allocated_reqs (map snd ?evs)) = mset (freed_reqs (map snd ?evs))"
    by (rule concurrent_calls_free_requests [OF calls run, THEN conjunct2, THEN conjunct2, THEN conjunct2, THEN mp]) simp
  then have "length (freed_reqs (map snd ?evs)) = 2" by (metis all mset_eq_length length_Cons list.size(3) numeral_2_eq_2)
  with calls run all show ?thesis by blast
qed

end
