(* ===== verification/Spec2Isabelle.thy ===== *)
theory Spec2Isabelle
  imports Packet_Delivery Module_Life Native_Tools Xmit_Refinement Recv_Pram Load_Xmit Unvme_Tools Recv_Service
    Tool_Usage Concurrent_Calls
begin

text \<open>
  nvpkt: sending packets that are stored on NVMe devices. The repository has two halves that share no code.

  \<^item> native-driver/ is a Linux kernel module, nvpkt.c, with a character device. Its \<open>ioctl\<close> allocates
    memory, describes it by a socket buffer and by the bio of a read command, has the NVMe device read
    blocks into it, and queues the socket buffer on a network device; or it passes a command of
    the user to the device. nvme.h is a copy of the NVMe host driver's header. Two tools call the \<open>ioctl\<close>.
  \<^item> userland-driver/tools/ are programs on unvme (NVMe from user space) and netmap (network rings from
    user space): they put a packet on a device, read blocks into the slots of a transmit ring,
    point the slots of a ring at physical addresses, dump blocks, and measure a device with threads.

  Kernel, unvme, netmap and the C library are not in the repository (of the C library what the
  programs use of strings and options is modelled). What they answer is an argument of the model, a
  function of the calls made so far; every call is recorded as an event. A program is thus a function from
  the environment to a result and a trace, and a property of it holds for every environment, or for
  the environments with the documented behaviour its hypotheses state.

  Theories, from the bottom.

  \<^item> Prelude: C integers, shifts and conversions, errno values, the monad of effects
    (\<open>emit\<close>, \<open>ask\<close>), and the protocol logic \<open>obeys\<close>, with which an automaton over the calls is proved of
    a program by a case split over the answers; \<open>yields\<close> is its part about results alone.
  \<^item> C\_Library: \<open>%d\<close>, \<open>strtol\<close>, \<open>atoi\<close>, \<open>strncmp\<close>, \<open>getopt\<close>. C\_Double: doubles as rationals rounded to 53
    bits, their division and multiplication, \<open>%.2lf\<close>, and the error of a few roundings.
  \<^item> Nvme: nvme.h, its constants, enumerations, structures and inline functions. \<open>nvme_block_nr_quotient\<close>,
    \<open>nvme_end_request_stores\<close>, \<open>nvme_set_disk_name_unique\<close> and \<open>quirk_test_exact\<close> say what they compute.
  \<^item> Kernel\_Api: nvpkt.h (structures and ioctl numbers) and the record \<open>kernel\<close>, one function per kernel function
    that nvpkt.c calls.
  \<^item> Sg\_Map: \<open>skb_from_sgvec\<close> and \<open>blk_rq_map_from_sgl\<close>. The lemmas follow both loops over the pages and show
    what the socket buffer and the bio describe, and where the number of fragments exceeds the array.
  \<^item> Nvpkt\_Ioctl: \<open>nvpkt_ioctl\<close> and its three handlers, and the table \<open>nvpkt_fops\<close> of all
    file operations. The interface \<open>request_handler\<close> states that a handler conforms to the life cycle of a block request, \<open>req_proto\<close>; it is proved of the
    handlers, and carries over to any sequence of system calls. Further lemmas say which packets are sent, which
    commands are issued, which lengths are mapped and what is returned. Packet\_Delivery: on a kernel whose calls
    succeed, exactly the requested packet is sent.
  \<^item> Nvpkt\_Module: \<open>nvpkt_init_module\<close> and \<open>nvpkt_exit_module\<close> against an automaton of what is held.
    Module\_Life composes loading, any calls and unloading. Concurrent\_Calls interleaves the events of calls of
    several processes, and carries the life cycle of requests over to every interleaving.
  \<^item> Native\_Tools: \<open>main\<close> of native-driver/tools/xmit-pkt.c and store-pkt.c. What their \<open>ioctl\<close> does is the
    interface (\<open>xmit_device\<close>, \<open>store_device\<close>); it is interpreted with the module's handler called through
    the C library, so that their properties are about tool and module together.
  \<^item> Packet: \<open>build_pkt\<close>, which the repository has in four versions, all instances of \<open>frame_builder\<close>, with a parser of
    the frames. Hexdump: \<open>hexdump\<close>, in two versions, with a reader of the dumps.
  \<^item> User\_Api: the structures of netmap, the events of the userland tools and the record \<open>host\<close>, one function per call.
    Netmap\_Ring: the cursor of a ring, its invariant \<open>ring_wf\<close>, and the interface \<open>netmap_client\<close> (the
    port is opened at most once, used while open, and closed before \<open>main\<close> returns). Tool\_Resources: the
    same for port, namespace and buffers (\<open>unvme_tool\<close>), released in the reverse order.
  \<^item> Phys\_Addr: \<open>phy_addr\<close> of recv-to-pram.c and xmit-from-pram.c. Xmit\_Pram: xmit-from-pram.c;
    Xmit\_Refinement: its batch refines a queue of free slots, and the whole program on a host that serves it.
    Recv\_Pram: recv-to-pram.c, with \<open>cell_layout\<close> for the buffers of all slots in one mapping.
    Load\_Xmit: load-and-xmit.c. Unvme\_Tools: store-pkt.c, read-pkt.c and dump-nvme.c. Tool\_Safety: a typing of
    the rings (\<open>port_typed\<close>) that all operations of the netmap tools keep, so that none of their runs
    faults. Recv\_Service: a round of the receive loop of recv-to-pram shows every slot the kernel has filled, and
    the program gets through any number of rounds.
  \<^item> Bench\_Config: the options of bench-nvme.c, the choice of addresses, times. Bench\_Threads: its worker threads,
    its reporter and its main thread, from \<open>unvme_open\<close> to the results, as a step relation, \<open>bench_step\<close>,
    one access to shared memory at a time, in any order; invariants of all reachable states by rule induction. Bench\_Progress: the
    interval reports, and that the program ends: a measure decreases in every step after the
    signal, and no state that is not final is stuck. Bench\_Output: the text the program prints, how exact the
    printed rates are, that the final results are those of the whole run, and what a refused command line prints.
  \<^item> Tool\_Usage: the usage texts of the other tools, compared with the options \<open>getopt\<close> accepts.

  Loops and bounds. The loops of the module and of load-and-xmit are functions with a termination proof or recursions
  over the values of their counters. The loop of xmit-from-pram has fuel; \<open>xmit_main_terminates\<close> shows that
  more fuel than the count is enough with a positive batch, and \<open>xmit_batch_zero_diverges\<close> that none is without. The
  loop of recv-to-pram never ends by itself: \<open>k\<close> bounds its rounds and \<open>fuel\<close> the slots
  drained from a ring at a time; \<open>recv_round_shows_all\<close> shows that as many as the mapping has buffers are
  enough. bench-nvme has no bound; its properties are about all finite prefixes of all schedules. Integers
  have the width of the sources; where a signed sum can overflow the model has a fault.

  Not modelled. Progress messages and log output, but for what bench-nvme prints of its configuration, options and
  results; pinning of threads; the embedded kernel objects of nvme.h's structures (locks, list heads, work items,
  devices) and the prototypes of functions defined elsewhere; the signal handler of bench-nvme, which nothing installs; Makefiles, the shell, python
  and plot scripts and the recorded results.
\<close>

section \<open>The tools together\<close>

text \<open>
  C31. Every netmap tool closes the port it opened: when \<open>main\<close> of load-and-xmit,
  xmit-from-pram or recv-to-pram returns, it has closed the port as often as it opened it, and no run of any of
  them closes a port more often, whatever netmap, unvme and the kernel answer.
\<close>

theorem netmap_tools_close_port:
  assumes "m \<in> {load_main H argv, xmit_main H fuel argv, recv_main H fuel k argv}"
    and "run_state m h = (r, h @ evs)"
  shows "port_closes evs \<le> port_opens evs \<and> (\<forall>x. r = Returned x \<longrightarrow> port_closes evs = port_opens evs)"
  using assms load_tool.port.returns_closed load_tool.port.closed_at_most_opened
    xmit_tool.returns_closed xmit_tool.closed_at_most_opened
    recv_tool.returns_closed recv_tool.closed_at_most_opened
  by fastforce

theorem netmap_tools_close_port_witness:
  "\<exists>x evs. run_state (load_main demo_host [''-s0x10'', ''-n'', ''2'', ''-c2'']) [] = (Returned x, evs) \<and>
     port_closes evs = port_opens evs"
proof -
  let ?m = "load_main demo_host [''-s0x10'', ''-n'', ''2'', ''-c2'']"
  obtain evs where run: "run_state ?m [] = (fst (run_state ?m []), [] @ evs)"
    using load_main_trace [of demo_host _ "[]"] by blast
  moreover obtain x where "fst (run_state ?m []) = Returned x"
    using obeys_collectD [OF load_main_serves [OF demo_load_served demo_load_opts] run] by blast
  ultimately show ?thesis
    using netmap_tools_close_port [of ?m, OF _ run] by auto
qed

end
